theory Spec2Isabelle
  imports Complex_Main "HOL-Library.Word" "HOL-Library.Multiset"
begin

unbundle bit_operations_syntax

section \<open>JavaScript numbers\<close>

text \<open>
  The sources compute with JavaScript numbers. A number is modelled as a finite value
  or one of the three special values of IEEE 754. Finite arithmetic is exact real
  arithmetic: rounding, overflow of finite operands to an infinity and the sign of zero
  are not modelled. The special values follow IEEE 754, which is what the claims about
  \<open>NaN\<close> and \<open>Infinity\<close> depend on.
\<close>

datatype jsnum = Num real | PosInf | NegInf | NaN

fun isFinite :: "jsnum \<Rightarrow> bool" where
  "isFinite (Num r) = True"
| "isFinite PosInf = False"
| "isFinite NegInf = False"
| "isFinite NaN = False"

fun jneg :: "jsnum \<Rightarrow> jsnum" where
  "jneg (Num r) = Num (- r)"
| "jneg PosInf = NegInf"
| "jneg NegInf = PosInf"
| "jneg NaN = NaN"

fun jabs :: "jsnum \<Rightarrow> jsnum" where
  "jabs (Num r) = Num \<bar>r\<bar>"
| "jabs PosInf = PosInf"
| "jabs NegInf = PosInf"
| "jabs NaN = NaN"

fun jadd :: "jsnum \<Rightarrow> jsnum \<Rightarrow> jsnum" where
  "jadd NaN b = NaN"
| "jadd a NaN = NaN"
| "jadd (Num a) (Num b) = Num (a + b)"
| "jadd PosInf NegInf = NaN"
| "jadd NegInf PosInf = NaN"
| "jadd PosInf b = PosInf"
| "jadd a PosInf = PosInf"
| "jadd NegInf b = NegInf"
| "jadd a NegInf = NegInf"

definition jsub :: "jsnum \<Rightarrow> jsnum \<Rightarrow> jsnum" where
  "jsub a b = jadd a (jneg b)"

text \<open>The sign of a number that is neither zero nor \<open>NaN\<close>: \<open>True\<close> for positive.\<close>

fun jpositive :: "jsnum \<Rightarrow> bool" where
  "jpositive (Num r) = (0 < r)"
| "jpositive PosInf = True"
| "jpositive NegInf = False"
| "jpositive NaN = False"

fun jmul :: "jsnum \<Rightarrow> jsnum \<Rightarrow> jsnum" where
  "jmul NaN b = NaN"
| "jmul a NaN = NaN"
| "jmul (Num a) (Num b) = Num (a * b)"
| "jmul a b =
     (if a = Num 0 \<or> b = Num 0 then NaN
      else if jpositive a = jpositive b then PosInf else NegInf)"

text \<open>
  Division. A zero divisor is taken as positive zero; the only division of the sources
  modelled here divides by \<open>Math.max(temperature, 1e-12)\<close>, which is never zero.
\<close>

fun jdiv :: "jsnum \<Rightarrow> jsnum \<Rightarrow> jsnum" where
  "jdiv NaN b = NaN"
| "jdiv a NaN = NaN"
| "jdiv (Num a) (Num b) =
     (if b = 0 then (if a = 0 then NaN else if 0 < a then PosInf else NegInf)
      else Num (a / b))"
| "jdiv (Num a) b = Num 0"
| "jdiv a (Num b) = (if jpositive a = (0 \<le> b) then PosInf else NegInf)"
| "jdiv a b = NaN"

text \<open>The comparison \<open>a < b\<close>: false as soon as one side is \<open>NaN\<close>.\<close>

fun jlt :: "jsnum \<Rightarrow> jsnum \<Rightarrow> bool" where
  "jlt NaN b = False"
| "jlt a NaN = False"
| "jlt (Num a) (Num b) = (a < b)"
| "jlt NegInf NegInf = False"
| "jlt NegInf b = True"
| "jlt a PosInf = (a \<noteq> PosInf)"
| "jlt PosInf b = False"
| "jlt a NegInf = False"

text \<open>\<open>Math.max\<close> of two numbers: \<open>NaN\<close> as soon as one argument is \<open>NaN\<close>.\<close>

fun jmax :: "jsnum \<Rightarrow> jsnum \<Rightarrow> jsnum" where
  "jmax NaN b = NaN"
| "jmax a NaN = NaN"
| "jmax a b = (if jlt a b then b else a)"

fun jexp :: "jsnum \<Rightarrow> jsnum" where
  "jexp (Num r) = Num (exp r)"
| "jexp PosInf = PosInf"
| "jexp NegInf = Num 0"
| "jexp NaN = NaN"

text \<open>\<open>ToInt32\<close>, the conversion behind \<open>seed | 0\<close>: truncate, then wrap to 32 bits.\<close>

fun toInt32 :: "jsnum \<Rightarrow> 32 word" where
  "toInt32 (Num r) = word_of_int (if 0 \<le> r then \<lfloor>r\<rfloor> else \<lceil>r\<rceil>)"
| "toInt32 PosInf = 0"
| "toInt32 NegInf = 0"
| "toInt32 NaN = 0"

section \<open>The cost model (cost.ts)\<close>

record CostBreakdown =
  total :: jsnum
  L :: jsnum
  X :: jsnum
  B :: jsnum
  F_out :: jsnum
  F_down :: jsnum
  F :: jsnum
  S_span :: jsnum
  S_waste :: jsnum
  S :: jsnum

text \<open>An optional field is an \<open>option\<close>: \<open>None\<close> is \<open>undefined\<close>.\<close>

record LayoutCostInput =
  positions :: "jsnum list option"
  spans :: "jsnum list option"
  waste :: "jsnum option"

record RoutingCostInput =
  crossings :: "jsnum option"
  bends :: "jsnum option"
  flowOutViolations :: "jsnum option"
  flowDownViolations :: "jsnum option"
  routingSpans :: "jsnum list option"

text \<open>
  \<open>weights\<close> is a partial record keyed by the names of the nine terms: a map from the
  key to the weight.
\<close>

record CostConfig =
  weights :: "(string \<rightharpoonup> jsnum) option"

definition ZERO_COST :: CostBreakdown where
  "ZERO_COST = \<lparr> total = Num 0, L = Num 0, X = Num 0, B = Num 0, F_out = Num 0,
     F_down = Num 0, F = Num 0, S_span = Num 0, S_waste = Num 0, S = Num 0 \<rparr>"

definition sum_values :: "jsnum list \<Rightarrow> jsnum" where
  "sum_values values = foldl jadd (Num 0) values"

text \<open>\<open>weighted(value, weight = 1)\<close>: the default applies to an undefined weight.\<close>

definition weighted :: "jsnum \<Rightarrow> jsnum option \<Rightarrow> jsnum" where
  "weighted v weight = jmul v (case weight of None \<Rightarrow> Num 1 | Some w \<Rightarrow> w)"

definition finiteOrZero :: "jsnum option \<Rightarrow> jsnum" where
  "finiteOrZero v = (case v of None \<Rightarrow> Num 0 | Some n \<Rightarrow> if isFinite n then n else Num 0)"

definition computeCost :: "LayoutCostInput \<Rightarrow> RoutingCostInput \<Rightarrow> CostConfig \<Rightarrow> CostBreakdown" where
  "computeCost layout routing config =
    (let ws = (case weights config of None \<Rightarrow> Map.empty | Some m \<Rightarrow> m);
         ps = (case positions layout of None \<Rightarrow> [] | Some p \<Rightarrow> p);
         sp = (case spans layout of Some s \<Rightarrow> s
               | None \<Rightarrow> (case routingSpans routing of Some s \<Rightarrow> s | None \<Rightarrow> []));
         baseL = sum_values (map jabs ps);
         baseX = finiteOrZero (crossings routing);
         baseB = finiteOrZero (bends routing);
         baseFOut = finiteOrZero (flowOutViolations routing);
         baseFDown = finiteOrZero (flowDownViolations routing);
         baseSSpan = sum_values (map jabs sp);
         baseSWaste = finiteOrZero (waste layout);
         l = weighted baseL (ws ''L'');
         x = weighted baseX (ws ''X'');
         b = weighted baseB (ws ''B'');
         f_out = weighted baseFOut (ws ''F_out'');
         f_down = weighted baseFDown (ws ''F_down'');
         f = weighted (jadd baseFOut baseFDown) (ws ''F'');
         s_span = weighted baseSSpan (ws ''S_span'');
         s_waste = weighted baseSWaste (ws ''S_waste'');
         s = weighted (jadd baseSSpan baseSWaste) (ws ''S'');
         tot = jadd (jadd (jadd (jadd (jadd (jadd (jadd (jadd l x) b) f_out) f_down) f)
                 s_span) s_waste) s
     in \<lparr> total = tot, L = l, X = x, B = b, F_out = f_out, F_down = f_down, F = f,
          S_span = s_span, S_waste = s_waste, S = s \<rparr>)"

definition computeDeltaCost :: "CostBreakdown \<Rightarrow> CostBreakdown \<Rightarrow> CostBreakdown" where
  "computeDeltaCost prev nxt =
    \<lparr> total = jsub (total nxt) (total prev), L = jsub (L nxt) (L prev),
      X = jsub (X nxt) (X prev), B = jsub (B nxt) (B prev),
      F_out = jsub (F_out nxt) (F_out prev), F_down = jsub (F_down nxt) (F_down prev),
      F = jsub (F nxt) (F prev), S_span = jsub (S_span nxt) (S_span prev),
      S_waste = jsub (S_waste nxt) (S_waste prev), S = jsub (S nxt) (S prev) \<rparr>"

definition zeroCostBreakdown :: CostBreakdown where
  "zeroCostBreakdown = ZERO_COST"

section \<open>The annealing engine (engine.ts)\<close>

text \<open>
  The engine's own \<open>CostBreakdown\<close> interface: a total and a record of named components,
  kept in key order.
\<close>

record AnnealCostBreakdown =
  cost_total :: jsnum
  components :: "(string \<times> jsnum) list"

text \<open>
  Every RNG state the engine stores comes out of \<open>sanitizeSeed\<close>, whose result is a
  32-bit integer: the seed is a 32-bit word.
\<close>

record AnnealRngState =
  seed :: "32 word"

text \<open>
  Layout entries, \<open>maxNudgeStep\<close> and \<open>transitionBufferSize\<close> are integers, as in the
  data model of the specification; temperatures and rates are numbers.
\<close>

record AnnealProblem =
  initialLayout :: "int list"
  evaluateCost :: "int list \<Rightarrow> AnnealCostBreakdown"
  maxNudgeStep :: "int option"
  initialTemperature :: "jsnum option"
  coolingRate :: "jsnum option"
  minTemperature :: "jsnum option"
  transitionBufferSize :: "int option"
  captureFullTrace :: "bool option"
  enableBlockShift :: "bool option"

record AnnealStateSnapshot =
  iteration :: nat
  temperature :: jsnum
  layout :: "int list"
  costBreakdown :: AnnealCostBreakdown
  rngState :: AnnealRngState

datatype AnnealMove =
    Nudge nat int AnnealRngState
  | Swap nat nat AnnealRngState
  | Reinsert nat nat AnnealRngState
  | BlockShift nat nat int AnnealRngState

fun rngStateAfterProposal :: "AnnealMove \<Rightarrow> AnnealRngState" where
  "rngStateAfterProposal (Nudge i d r) = r"
| "rngStateAfterProposal (Swap i j r) = r"
| "rngStateAfterProposal (Reinsert i j r) = r"
| "rngStateAfterProposal (BlockShift i j d r) = r"

datatype AnnealReason = Improved | Equal | Metropolis | Rejected

record AnnealTransition =
  proposal :: AnnealMove
  deltaCost :: jsnum
  accepted :: bool
  reason :: AnnealReason
  before :: AnnealStateSnapshot
  after :: AnnealStateSnapshot

text \<open>
  \<open>new Array(capacity)\<close> is an array of holes: an entry is \<open>None\<close> until it is written.
\<close>

record TransitionRingBuffer =
  capacity :: nat
  head :: nat
  size :: nat
  entries :: "AnnealTransition option list"

record AnnealState = AnnealStateSnapshot +
  problem :: AnnealProblem
  transitionBuffer :: TransitionRingBuffer
  fullTraceEnabled :: bool
  fullTrace :: "AnnealTransition list"

datatype js_error = RangeError | TypeError | Rejection

definition DEFAULT_INITIAL_TEMPERATURE :: jsnum where
  "DEFAULT_INITIAL_TEMPERATURE = Num 10"

definition DEFAULT_COOLING_RATE :: jsnum where
  "DEFAULT_COOLING_RATE = Num (995 / 1000)"

definition DEFAULT_MIN_TEMPERATURE :: jsnum where
  "DEFAULT_MIN_TEMPERATURE = Num (1 / 10000)"

definition DEFAULT_TRANSITION_BUFFER_SIZE :: int where
  "DEFAULT_TRANSITION_BUFFER_SIZE = 256"

definition sanitizeSeed :: "jsnum \<Rightarrow> 32 word" where
  "sanitizeSeed s = (let n = toInt32 s in if n = 0 then 0x6d2b79f5 else n)"

text \<open>
  One xorshift draw. \<open>x << 13\<close> and \<open>x << 5\<close> wrap to 32 bits, \<open>x >>> 17\<close> is the logical
  shift. The value is \<open>(seed >>> 0) / 4294967296\<close>, a finite number in \<open>[0, 1)\<close>, so it
  is a real. The input state is read, never written: the next state is a new value.
\<close>

definition nextRng :: "AnnealRngState \<Rightarrow> real \<times> AnnealRngState" where
  "nextRng state =
    (let x0 = seed state;
         x1 = x0 XOR push_bit 13 x0;
         x2 = x1 XOR drop_bit 17 x1;
         x3 = x2 XOR push_bit 5 x2;
         nextState = \<lparr> seed = sanitizeSeed (Num (real_of_int (sint x3))) \<rparr>;
         v = real_of_int (uint (seed nextState)) / 4294967296
     in (v, nextState))"

text \<open>
  \<open>Math.floor(u * maxExclusive)\<close>: the product is exact in double precision for
  \<open>maxExclusive\<close> below \<open>2^21\<close>, which covers every layout the engine can hold in
  practice.
\<close>

definition randInt :: "int \<Rightarrow> AnnealRngState \<Rightarrow> nat \<times> AnnealRngState" where
  "randInt maxExclusive rng =
    (if maxExclusive \<le> 0 then (0, rng)
     else (case nextRng rng of
             (u, nextState) \<Rightarrow> (nat \<lfloor>u * real_of_int maxExclusive\<rfloor>, nextState)))"

definition cloneSnapshot :: "'a AnnealStateSnapshot_scheme \<Rightarrow> AnnealStateSnapshot" where
  "cloneSnapshot state =
    \<lparr> iteration = iteration state, temperature = temperature state, layout = layout state,
      costBreakdown = \<lparr> cost_total = cost_total (costBreakdown state),
                        components = components (costBreakdown state) \<rparr>,
      rngState = \<lparr> seed = seed (rngState state) \<rparr> \<rparr>"

definition cool :: "AnnealProblem \<Rightarrow> jsnum \<Rightarrow> jsnum" where
  "cool p t =
    (let rate = (case coolingRate p of None \<Rightarrow> DEFAULT_COOLING_RATE | Some r \<Rightarrow> r);
         minT = (case minTemperature p of None \<Rightarrow> DEFAULT_MIN_TEMPERATURE | Some m \<Rightarrow> m)
     in jmax minT (jmul t rate))"

definition makeRingBuffer :: "nat \<Rightarrow> TransitionRingBuffer" where
  "makeRingBuffer c = \<lparr> capacity = c, head = 0, size = 0, entries = replicate c None \<rparr>"

text \<open>
  \<open>nextEntries[ring.head] = transition\<close>: an index past the end extends the array with
  holes, as JavaScript does.
\<close>

definition setEntry :: "'a option list \<Rightarrow> nat \<Rightarrow> 'a \<Rightarrow> 'a option list" where
  "setEntry xs i v =
    (if i < length xs then xs[i := Some v]
     else xs @ replicate (i - length xs) None @ [Some v])"

text \<open>
  The capacity of a ring is at least 1: rings are only made by \<open>initializeAnneal\<close>, from
  \<open>Math.max(1, ...)\<close>.
\<close>

definition appendTransition :: "AnnealState \<Rightarrow> AnnealTransition \<Rightarrow> AnnealState" where
  "appendTransition state transition =
    (let ring = transitionBuffer state;
         nextEntries = setEntry (entries ring) (head ring) transition;
         nextRing = \<lparr> capacity = capacity ring,
                      head = (head ring + 1) mod capacity ring,
                      size = min (size ring + 1) (capacity ring),
                      entries = nextEntries \<rparr>;
         nextTrace = (if fullTraceEnabled state then fullTrace state @ [transition]
                      else fullTrace state)
     in state \<lparr> transitionBuffer := nextRing, fullTrace := nextTrace \<rparr>)"

text \<open>
  \<open>new Array(n)\<close> throws a \<open>RangeError\<close> for a length above \<open>2^32 - 1\<close>.
\<close>

definition initializeAnneal :: "AnnealProblem \<Rightarrow> jsnum \<Rightarrow> js_error + AnnealState" where
  "initializeAnneal p s =
    (let lay = initialLayout p;
         cb = evaluateCost p lay;
         bufferSize = max 1 (case transitionBufferSize p of
                               None \<Rightarrow> DEFAULT_TRANSITION_BUFFER_SIZE | Some n \<Rightarrow> n)
     in if 4294967295 < bufferSize then Inl RangeError
        else Inr \<lparr> iteration = 0,
                   temperature = jmax (case initialTemperature p of
                                         None \<Rightarrow> DEFAULT_INITIAL_TEMPERATURE | Some t \<Rightarrow> t)
                                      (Num 0),
                   layout = lay,
                   costBreakdown = cb,
                   rngState = \<lparr> seed = sanitizeSeed s \<rparr>,
                   problem = p,
                   transitionBuffer = makeRingBuffer (nat bufferSize),
                   fullTraceEnabled = (captureFullTrace p = Some True),
                   fullTrace = [] \<rparr>)"

text \<open>
  The loop \<open>while (b === a)\<close> of a swap proposal redraws until the indices differ. Nothing
  in the source bounds it, so it is a partial function: \<open>None\<close> is a loop that never ends.
\<close>

partial_function (option) redrawDistinct ::
  "int \<Rightarrow> nat \<Rightarrow> nat \<Rightarrow> AnnealRngState \<Rightarrow> (nat \<times> AnnealRngState) option" where
  "redrawDistinct n a b rng =
    (if b = a then (case randInt n rng of (b', rng') \<Rightarrow> redrawDistinct n a b' rng')
     else Some (b, rng))"

definition proposeMove :: "AnnealState \<Rightarrow> AnnealMove option" where
  "proposeMove state =
    (let lay = layout state;
         p = problem state;
         n = int (length lay);
         rng0 = rngState state;
         options = [''nudge'', ''swap'', ''reinsert'']
                   @ (if enableBlockShift p = Some True then [''blockShift''] else [])
     in case randInt (int (length options)) rng0 of (moveIndex, rng1) \<Rightarrow>
        let moveType = options ! moveIndex in
        if moveType = ''swap'' then
          (case randInt n rng1 of (a, rng2) \<Rightarrow>
           case randInt n rng2 of (b, rng3) \<Rightarrow>
           if 1 < length lay then
             (case redrawDistinct n a b rng3 of
                None \<Rightarrow> None
              | Some (b', rng4) \<Rightarrow> Some (Swap a b' rng4))
           else Some (Swap a b rng3))
        else if moveType = ''reinsert'' then
          (case randInt n rng1 of (from, rng2) \<Rightarrow>
           case randInt n rng2 of (to, rng3) \<Rightarrow>
           Some (Reinsert from to rng3))
        else if moveType = ''blockShift'' then
          (case randInt n rng1 of (start0, rng2) \<Rightarrow>
           case randInt n rng2 of (end0, rng3) \<Rightarrow>
           let start = (if end0 < start0 then end0 else start0);
               end = (if end0 < start0 then start0 else end0)
           in case randInt 3 rng3 of (shift, rng4) \<Rightarrow>
              Some (BlockShift start end (int shift - 1) rng4))
        else
          (case randInt n rng1 of (idx, rng2) \<Rightarrow>
           let stepMax = max 1 (case maxNudgeStep p of None \<Rightarrow> 1 | Some m \<Rightarrow> m)
           in case randInt stepMax rng2 of (deltaMagnitude, rng3) \<Rightarrow>
              case randInt 2 rng3 of (signRoll, rng4) \<Rightarrow>
              Some (Nudge idx ((int deltaMagnitude + 1) * (if signRoll = 0 then - 1 else 1))
                      rng4)))"

text \<open>
  The layout after a move. The indices of a proposed move are within the layout
  (\<open>randInt\<close> of its length); the model is meant for such moves.
\<close>

definition moveLayout :: "int list \<Rightarrow> AnnealMove \<Rightarrow> int list" where
  "moveLayout lay m =
    (case m of
       Nudge idx d r \<Rightarrow>
         (if 0 < length lay then lay[idx := lay ! idx + d] else lay)
     | Swap a b r \<Rightarrow>
         (if 1 < length lay then (lay[a := lay ! b])[b := lay ! a] else lay)
     | Reinsert from to r \<Rightarrow>
         (if 1 < length lay then
            (let item = lay ! from;
                 rest = take from lay @ drop (from + 1) lay;
                 pos = min to (length rest)
             in take pos rest @ [item] @ drop pos rest)
          else lay)
     | BlockShift start0 end0 shift r \<Rightarrow>
         (if 0 < length lay \<and> shift \<noteq> 0 then
            (let start = max 0 (min start0 (length lay - 1));
                 end = max start (min end0 (length lay - 1));
                 block = take (end - start + 1) (drop start lay);
                 rest = take start lay @ drop (end + 1) lay;
                 insertion = nat (max 0 (min (int start + shift) (int (length rest))))
             in take insertion rest @ block @ drop insertion rest)
          else lay))"

definition applyMove :: "AnnealState \<Rightarrow> AnnealMove \<Rightarrow> AnnealState" where
  "applyMove state m =
    (let nextLayout = moveLayout (layout state) m
     in state \<lparr> layout := nextLayout,
                costBreakdown := evaluateCost (problem state) nextLayout,
                rngState := \<lparr> seed = seed (rngStateAfterProposal m) \<rparr> \<rparr>)"

text \<open>
  The acceptance decision. The third branch is the \<open>else\<close> of the source: it is taken
  for a positive \<open>deltaCost\<close>, and for a \<open>NaN\<close> one.
\<close>

definition acceptMove :: "AnnealState \<Rightarrow> AnnealState \<Rightarrow> AnnealTransition" where
  "acceptMove state candidate =
    (let dc = jsub (cost_total (costBreakdown candidate)) (cost_total (costBreakdown state));
         bef = cloneSnapshot state;
         decision =
           (if jlt dc (Num 0) then (True, Improved, rngState candidate)
            else if dc = Num 0 then (True, Equal, rngState candidate)
            else (case nextRng (rngState candidate) of (u, nextRngState) \<Rightarrow>
                    let metropolisCutoff =
                          jexp (jdiv (jneg dc) (jmax (temperature state) (Num (1 / 10 ^ 12))))
                    in if jlt (Num u) metropolisCutoff then (True, Metropolis, nextRngState)
                       else (False, Rejected, nextRngState)))
     in case decision of (acc, rsn, rngAfterAccept) \<Rightarrow>
        let baseNext =
              \<lparr> iteration = iteration state + 1,
                temperature = cool (problem state) (temperature state),
                layout = (if acc then layout candidate else layout state),
                costBreakdown =
                  (if acc then \<lparr> cost_total = cost_total (costBreakdown candidate),
                                 components = components (costBreakdown candidate) \<rparr>
                   else \<lparr> cost_total = cost_total (costBreakdown state),
                          components = components (costBreakdown state) \<rparr>),
                rngState = rngAfterAccept \<rparr>
        in \<lparr> proposal = Nudge 0 0 (rngState candidate),
             deltaCost = dc,
             accepted = acc,
             reason = rsn,
             before = bef,
             after = baseNext \<rparr>)"

definition buildNextStateFromTransition :: "AnnealState \<Rightarrow> AnnealTransition \<Rightarrow> AnnealState" where
  "buildNextStateFromTransition state transition =
    state \<lparr> iteration := iteration (after transition),
            temperature := temperature (after transition),
            layout := layout (after transition),
            costBreakdown := \<lparr> cost_total = cost_total (costBreakdown (after transition)),
                               components = components (costBreakdown (after transition)) \<rparr>,
            rngState := \<lparr> seed = seed (rngState (after transition)) \<rparr> \<rparr>"

text \<open>
  One step. The source updates the session in place and returns the transition; the
  model returns the transition together with the updated session.
\<close>

definition stepAnneal :: "AnnealState \<Rightarrow> (AnnealTransition \<times> AnnealState) option" where
  "stepAnneal state =
    (case proposeMove state of
       None \<Rightarrow> None
     | Some prop \<Rightarrow>
         let candidate = applyMove state prop;
             acceptedTransition = acceptMove state candidate;
             transition = acceptedTransition \<lparr> proposal := prop \<rparr>;
             postStep = buildNextStateFromTransition state transition;
             persisted = appendTransition postStep transition
         in Some (transition,
                  state \<lparr> iteration := iteration persisted,
                          temperature := temperature persisted,
                          layout := layout persisted,
                          costBreakdown := costBreakdown persisted,
                          rngState := rngState persisted,
                          transitionBuffer := transitionBuffer persisted,
                          fullTrace := fullTrace persisted \<rparr>))"

text \<open>
  \<open>steps\<close> sequential steps: the transitions in step order (what the observer \<open>onStep\<close>
  is handed, one by one) and the final session.
\<close>

fun runSteps :: "nat \<Rightarrow> AnnealState \<Rightarrow> (AnnealTransition list \<times> AnnealState) option" where
  "runSteps 0 state = Some ([], state)"
| "runSteps (Suc k) state =
    (case stepAnneal state of
       None \<Rightarrow> None
     | Some (t, state') \<Rightarrow>
         (case runSteps k state' of
            None \<Rightarrow> None
          | Some (ts, state'') \<Rightarrow> Some (t # ts, state'')))"

text \<open>
  \<open>Math.max(0, Math.floor(budget))\<close> steps: none for a \<open>NaN\<close> budget (the loop test
  \<open>i < NaN\<close> fails at once), and a loop that never ends for \<open>Infinity\<close>.
\<close>

fun budgetSteps :: "jsnum \<Rightarrow> nat option" where
  "budgetSteps (Num r) = Some (nat \<lfloor>r\<rfloor>)"
| "budgetSteps PosInf = None"
| "budgetSteps NegInf = Some 0"
| "budgetSteps NaN = Some 0"

definition runAnneal :: "AnnealState \<Rightarrow> jsnum \<Rightarrow> (AnnealTransition list \<times> AnnealState) option" where
  "runAnneal state budget =
    (case budgetSteps budget of None \<Rightarrow> None | Some steps \<Rightarrow> runSteps steps state)"

text \<open>
  JavaScript's \<open>%\<close> on integers truncates towards zero: the result has the sign of the
  dividend.
\<close>

definition js_rem :: "int \<Rightarrow> int \<Rightarrow> int" where
  "js_rem a b = sgn a * (\<bar>a\<bar> mod \<bar>b\<bar>)"

text \<open>Reading an array: \<open>undefined\<close> outside its bounds, and at a hole.\<close>

definition entryAt :: "'a option list \<Rightarrow> int \<Rightarrow> 'a option" where
  "entryAt xs i = (if 0 \<le> i \<and> i < int (length xs) then xs ! nat i else None)"

definition exportTransitionRing :: "AnnealState \<Rightarrow> AnnealTransition list" where
  "exportTransitionRing state =
    (let tb = transitionBuffer state
     in List.map_filter
          (\<lambda>i. entryAt (entries tb)
                  (js_rem (int (head tb) - int (size tb) + int i + int (capacity tb))
                          (int (capacity tb))))
          [0 ..< size tb])"


subsection \<open>The ring invariant and example sessions\<close>

text \<open>
  What a ring holds after the transitions \<open>hs\<close> have been appended to it, oldest first:
  the entry of step \<open>k\<close> sits at index \<open>k mod capacity\<close> for the last \<open>capacity\<close> steps.
\<close>

definition ringHolds :: "TransitionRingBuffer \<Rightarrow> AnnealTransition list \<Rightarrow> bool" where
  "ringHolds rb hs \<longleftrightarrow>
     1 \<le> capacity rb \<and> length (entries rb) = capacity rb \<and>
     head rb = length hs mod capacity rb \<and>
     size rb = min (length hs) (capacity rb) \<and>
     (\<forall>k < length hs. length hs \<le> k + capacity rb \<longrightarrow>
        entries rb ! (k mod capacity rb) = Some (hs ! k))"

text \<open>A problem with a one-element layout, a constant cost and a ring of capacity 2.\<close>

definition demoProblem :: AnnealProblem where
  "demoProblem =
    \<lparr> initialLayout = [5],
      evaluateCost = (\<lambda>l. \<lparr> cost_total = Num 0, components = [] \<rparr>),
      maxNudgeStep = None, initialTemperature = None, coolingRate = None,
      minTemperature = None, transitionBufferSize = Some 2, captureFullTrace = None,
      enableBlockShift = None \<rparr>"

text \<open>The same problem, configured with the initial temperature 0.\<close>

definition coldProblem :: AnnealProblem where
  "coldProblem = demoProblem \<lparr> initialTemperature := Some (Num 0) \<rparr>"

text \<open>
  A session over the layout \<open>[4, 2, 7, 1]\<close> whose cost is the sum of the layout, at
  temperature 10.
\<close>

definition sumProblem :: AnnealProblem where
  "sumProblem =
    \<lparr> initialLayout = [4, 2, 7, 1],
      evaluateCost = (\<lambda>l. \<lparr> cost_total = Num (real_of_int (sum_list l)), components = [] \<rparr>),
      maxNudgeStep = None, initialTemperature = None, coolingRate = None,
      minTemperature = None, transitionBufferSize = None, captureFullTrace = None,
      enableBlockShift = None \<rparr>"

definition sumState :: AnnealState where
  "sumState =
    \<lparr> iteration = 0, temperature = Num 10, layout = [4, 2, 7, 1],
      costBreakdown = \<lparr> cost_total = Num 14, components = [] \<rparr>,
      rngState = \<lparr> seed = 1 \<rparr>, problem = sumProblem,
      transitionBuffer = makeRingBuffer 256, fullTraceEnabled = False, fullTrace = [] \<rparr>"

section \<open>The grid router (draftRouter.ts)\<close>

text \<open>
  Points and cells have integer coordinates, and the grid step and the obstacle padding
  are integers. A cell stands for its key \<open>"x,y"\<close>: two cells have the same key exactly
  when they are equal, so a set of keys is a set of cells and a map keyed by keys is a map
  on cells.
\<close>

type_synonym GridPoint = "int \<times> int"

type_synonym Cell = "int \<times> int"

record GridRect =
  rect_x :: int
  rect_y :: int
  width :: int
  height :: int

record DraftRouterEdge =
  edge_id :: string
  source :: GridPoint
  target :: GridPoint

record DraftRouterInput =
  edges :: "DraftRouterEdge list"
  obstacles :: "GridRect list option"
  blockedCells :: "GridPoint list option"
  gridStep :: "int option"
  obstaclePadding :: "int option"

record RoutedEdge =
  route_id :: string
  points :: "GridPoint list"

record RouteCost =
  route_length :: int
  route_bends :: int
  route_crossings :: int
  route_total :: int

text \<open>
  The result of a router: \<open>DraftRouterResult\<close> (mode \<open>draft\<close>, no \<open>fallbackUsed\<close>) and
  \<open>ElkRouterResult\<close> (mode \<open>elk\<close>) are one record, told apart by \<open>mode\<close> as in the source.
\<close>

record RouterResult =
  mode :: string
  routes :: "RoutedEdge list"
  cost :: RouteCost
  fallbackUsed :: "bool option"

definition NEIGHBOR_DIRS :: "Cell list" where
  "NEIGHBOR_DIRS = [(1, 0), (0, 1), (0, - 1), (- 1, 0)]"

text \<open>\<open>Math.round(a / s)\<close> for integers: halves round up.\<close>

definition roundDiv :: "int \<Rightarrow> int \<Rightarrow> int" where
  "roundDiv a s = (2 * a + s) div (2 * s)"

text \<open>\<open>Math.floor(a / s)\<close> is \<open>a div s\<close>; \<open>Math.ceil(a / s)\<close>:\<close>

definition ceilDiv :: "int \<Rightarrow> int \<Rightarrow> int" where
  "ceilDiv a s = - ((- a) div s)"

definition normalizeToCell :: "GridPoint \<Rightarrow> int \<Rightarrow> Cell" where
  "normalizeToCell point step = (roundDiv (fst point) step, roundDiv (snd point) step)"

definition denormalizeFromCell :: "Cell \<Rightarrow> int \<Rightarrow> GridPoint" where
  "denormalizeFromCell cell step = (fst cell * step, snd cell * step)"

definition buildBlockedSet ::
  "GridRect list \<Rightarrow> GridPoint list \<Rightarrow> int \<Rightarrow> int \<Rightarrow> Cell set" where
  "buildBlockedSet obs cells step padding =
    set (map (\<lambda>point. normalizeToCell point step) cells) \<union>
    (\<Union>ob \<in> set obs.
       {rect_x ob div step - padding .. ceilDiv (rect_x ob + width ob) step + padding} \<times>
       {rect_y ob div step - padding .. ceilDiv (rect_y ob + height ob) step + padding})"

definition manhattan :: "Cell \<Rightarrow> Cell \<Rightarrow> int" where
  "manhattan a b = \<bar>fst a - fst b\<bar> + \<bar>snd a - snd b\<bar>"

text \<open>
  A stable sort by a comparator that returns a negative number, zero or a positive
  number, as \<open>Array.prototype.sort\<close> is: elements that compare equal keep their order.
\<close>

fun insertBy :: "('a \<Rightarrow> 'a \<Rightarrow> int) \<Rightarrow> 'a \<Rightarrow> 'a list \<Rightarrow> 'a list" where
  "insertBy cmp v [] = [v]"
| "insertBy cmp v (y # ys) = (if cmp v y \<le> 0 then v # y # ys else y # insertBy cmp v ys)"

definition sortBy :: "('a \<Rightarrow> 'a \<Rightarrow> int) \<Rightarrow> 'a list \<Rightarrow> 'a list" where
  "sortBy cmp xs = foldr (insertBy cmp) xs []"

text \<open>
  The walk back along \<open>cameFrom\<close>. It ends when a cell has no predecessor; nothing in
  the source bounds it.
\<close>

partial_function (option) reconstructLoop ::
  "(Cell \<rightharpoonup> Cell) \<Rightarrow> Cell \<Rightarrow> Cell list \<Rightarrow> Cell list option" where
  "reconstructLoop cf cursor path =
    (case cf cursor of
       None \<Rightarrow> Some (rev path)
     | Some prev \<Rightarrow> reconstructLoop cf prev (path @ [prev]))"

declare reconstructLoop.simps [code]

definition reconstructPath :: "(Cell \<rightharpoonup> Cell) \<Rightarrow> Cell \<Rightarrow> Cell list option" where
  "reconstructPath cf e = reconstructLoop cf e [e]"

text \<open>
  The state of the search. A score that is missing from \<open>g\<close> or \<open>f\<close> reads as
  \<open>Infinity\<close>.
\<close>

record AStar =
  openList :: "Cell list"
  cameFrom :: "Cell \<rightharpoonup> Cell"
  gScore :: "Cell \<rightharpoonup> int"
  fScore :: "Cell \<rightharpoonup> int"
  openSet :: "Cell set"

text \<open>The comparator of \<open>open.sort\<close>: by \<open>f\<close>, then by \<open>x\<close>, then by \<open>y\<close>.\<close>

definition openOrder :: "(Cell \<rightharpoonup> int) \<Rightarrow> Cell \<Rightarrow> Cell \<Rightarrow> int" where
  "openOrder f a b =
    (if f a \<noteq> f b then
       (case (f a, f b) of
          (Some fa, Some fb) \<Rightarrow> fa - fb
        | (Some fa, None) \<Rightarrow> - 1
        | (None, _) \<Rightarrow> 1)
     else if fst a \<noteq> fst b then fst a - fst b
     else snd a - snd b)"

text \<open>The body of \<open>for (const dir of NEIGHBOR_DIRS)\<close>.\<close>

definition relaxNeighbor :: "Cell \<Rightarrow> Cell set \<Rightarrow> Cell \<Rightarrow> AStar \<Rightarrow> Cell \<Rightarrow> AStar" where
  "relaxNeighbor goal blocked current st dir =
    (let neighbor = (fst current + fst dir, snd current + snd dir)
     in if neighbor \<noteq> goal \<and> neighbor \<in> blocked then st
        else (case gScore st current of
                None \<Rightarrow> st
              | Some gc \<Rightarrow>
                  let tentativeG = gc + 1
                  in if (case gScore st neighbor of None \<Rightarrow> False | Some gn \<Rightarrow> gn \<le> tentativeG)
                     then st
                     else st \<lparr> openList := (if neighbor \<in> openSet st then openList st
                                              else openList st @ [neighbor]),
                               cameFrom := (cameFrom st)(neighbor \<mapsto> current),
                               gScore := (gScore st)(neighbor \<mapsto> tentativeG),
                               fScore := (fScore st)(neighbor \<mapsto>
                                            tentativeG + manhattan neighbor goal),
                               openSet := insert neighbor (openSet st) \<rparr>))"

text \<open>
  The loop \<open>while (open.length > 0)\<close>. On an unbounded grid the frontier can grow for
  ever (a goal walled in by blocked cells, a start that is not), so the loop is a partial
  function: \<open>None\<close> is a search that never ends.
\<close>

partial_function (option) findPathLoop ::
  "Cell \<Rightarrow> Cell \<Rightarrow> Cell set \<Rightarrow> AStar \<Rightarrow> Cell list option" where
  "findPathLoop start goal blocked st =
    (case sortBy (openOrder (fScore st)) (openList st) of
       [] \<Rightarrow> Some [start, goal]
     | current # others \<Rightarrow>
         (if current = goal
          then reconstructPath (cameFrom st) current
          else findPathLoop start goal blocked
                 (foldl (relaxNeighbor goal blocked current)
                    (st \<lparr> openList := others, openSet := openSet st - {current} \<rparr>)
                    NEIGHBOR_DIRS)))"

declare findPathLoop.simps [code]

definition findPath :: "Cell \<Rightarrow> Cell \<Rightarrow> Cell set \<Rightarrow> Cell list option" where
  "findPath start goal blocked =
    (if start = goal then Some [start]
     else findPathLoop start goal blocked
            \<lparr> openList = [start], cameFrom = Map.empty,
              gScore = [start \<mapsto> 0], fScore = [start \<mapsto> manhattan start goal],
              openSet = {start} \<rparr>)"

text \<open>
  The first loop of \<open>simplifyPath\<close>: the point before each change of direction;
  \<open>prevDir\<close> is undefined until the first step.
\<close>

fun turningPoints :: "Cell list \<Rightarrow> Cell option \<Rightarrow> Cell list" where
  "turningPoints (p0 # p1 # ps) prevDir =
    (let dir = (fst p1 - fst p0, snd p1 - snd p0)
     in if prevDir \<noteq> Some dir then p0 # turningPoints (p1 # ps) (Some dir)
        else turningPoints (p1 # ps) prevDir)"
| "turningPoints path prevDir = []"

definition simplifyPath :: "Cell list \<Rightarrow> Cell list" where
  "simplifyPath path =
    (if length path \<le> 2 then path
     else remdups_adj ([hd path] @ turningPoints path None @ [last path]))"

text \<open>The segments of all routes, in order, each with the id of its edge.\<close>

definition routeSegments :: "RoutedEdge list \<Rightarrow> (GridPoint \<times> GridPoint \<times> string) list" where
  "routeSegments rs =
    concat (map (\<lambda>route. map (\<lambda>(a, b). (a, b, route_id route))
                           (zip (points route) (tl (points route)))) rs)"

text \<open>
  The test on a pair of segments: different edges, exactly one of them with equal
  \<open>x\<close> at both ends (the vertical one; the other counts as horizontal), and the inclusive
  overlap test.
\<close>

definition segmentsCross ::
  "GridPoint \<times> GridPoint \<times> string \<Rightarrow> GridPoint \<times> GridPoint \<times> string \<Rightarrow> bool" where
  "segmentsCross s1 s2 =
    (case s1 of (a1, b1, id1) \<Rightarrow> case s2 of (a2, b2, id2) \<Rightarrow>
     if id1 = id2 then False
     else let s1Vertical = (fst a1 = fst b1); s2Vertical = (fst a2 = fst b2)
          in if s1Vertical = s2Vertical then False
             else let vertical = (if s1Vertical then (a1, b1) else (a2, b2));
                      horizontal = (if s1Vertical then (a2, b2) else (a1, b1));
                      vx = fst (fst vertical);
                      hy = snd (fst horizontal);
                      vMinY = min (snd (fst vertical)) (snd (snd vertical));
                      vMaxY = max (snd (fst vertical)) (snd (snd vertical));
                      hMinX = min (fst (fst horizontal)) (fst (snd horizontal));
                      hMaxX = max (fst (fst horizontal)) (fst (snd horizontal))
                  in hMinX \<le> vx \<and> vx \<le> hMaxX \<and> vMinY \<le> hy \<and> hy \<le> vMaxY)"

text \<open>The double loop over \<open>i < j\<close>: each segment against the segments after it.\<close>

fun countCrossings :: "(GridPoint \<times> GridPoint \<times> string) list \<Rightarrow> int" where
  "countCrossings [] = 0"
| "countCrossings (s # ss) =
     int (length (filter (segmentsCross s) ss)) + countCrossings ss"

definition segmentCrossings :: "RoutedEdge list \<Rightarrow> int" where
  "segmentCrossings rs = countCrossings (routeSegments rs)"

fun pathLength :: "GridPoint list \<Rightarrow> int" where
  "pathLength (a # b # ps) =
     \<bar>fst b - fst a\<bar> + \<bar>snd b - snd a\<bar> + pathLength (b # ps)"
| "pathLength ps = 0"

fun pathBends :: "GridPoint list \<Rightarrow> int" where
  "pathBends (a # b # c # ps) =
     (if (fst b - fst a, snd b - snd a) \<noteq> (fst c - fst b, snd c - snd b) then 1 else 0)
     + pathBends (b # c # ps)"
| "pathBends ps = 0"

definition evaluateRouteCost :: "RoutedEdge list \<Rightarrow> RouteCost" where
  "evaluateRouteCost rs =
    (let len = sum_list (map (\<lambda>route. pathLength (points route)) rs);
         bnd = sum_list (map (\<lambda>route. pathBends (points route)) rs);
         crs = segmentCrossings rs
     in \<lparr> route_length = len, route_bends = bnd, route_crossings = crs,
          route_total = len + bnd * 5 + crs * 20 \<rparr>)"

text \<open>
  The body of the loop over the sorted edges: the blocked set and the routes so far go
  in, and come out updated.
\<close>

definition routeEdge ::
  "int \<Rightarrow> Cell set \<times> RoutedEdge list \<Rightarrow> DraftRouterEdge
     \<Rightarrow> (Cell set \<times> RoutedEdge list) option" where
  "routeEdge step acc edge =
    (case acc of (blocked, rs) \<Rightarrow>
     let start = normalizeToCell (source edge) step;
         goal = normalizeToCell (target edge) step;
         blocked1 = blocked - {start} - {goal}
     in case findPath start goal blocked1 of
          None \<Rightarrow> None
        | Some rawPath \<Rightarrow>
            let simplified = map (\<lambda>cell. denormalizeFromCell cell step) (simplifyPath rawPath)
            in Some (blocked1 \<union> {point \<in> set rawPath. point \<noteq> start \<and> point \<noteq> goal},
                     rs @ [\<lparr> route_id = edge_id edge, points = simplified \<rparr>]))"

fun routeEdges ::
  "int \<Rightarrow> Cell set \<times> RoutedEdge list \<Rightarrow> DraftRouterEdge list
     \<Rightarrow> (Cell set \<times> RoutedEdge list) option" where
  "routeEdges step acc [] = Some acc"
| "routeEdges step acc (e # es) =
    (case routeEdge step acc e of
       None \<Rightarrow> None
     | Some acc' \<Rightarrow> routeEdges step acc' es)"

text \<open>
  \<open>routeDraft\<close>. \<open>localeCompare\<close> belongs to the host, not to the repository, and its
  order depends on the host's locale: it is a parameter.
\<close>

definition routeDraft :: "(string \<Rightarrow> string \<Rightarrow> int) \<Rightarrow> DraftRouterInput \<Rightarrow> RouterResult option" where
  "routeDraft localeCompare input =
    (let step = max 1 (case gridStep input of None \<Rightarrow> 1 | Some g \<Rightarrow> g);
         padding = max 0 (case obstaclePadding input of None \<Rightarrow> 1 | Some p \<Rightarrow> p);
         blocked = buildBlockedSet
                     (case obstacles input of None \<Rightarrow> [] | Some obs \<Rightarrow> obs)
                     (case blockedCells input of None \<Rightarrow> [] | Some cells \<Rightarrow> cells)
                     step padding
     in case routeEdges step (blocked, [])
               (sortBy (\<lambda>a b. localeCompare (edge_id a) (edge_id b)) (edges input)) of
          None \<Rightarrow> None
        | Some (blocked', rs) \<Rightarrow>
            Some \<lparr> mode = ''draft'', routes = rs, cost = evaluateRouteCost rs,
                   fallbackUsed = None \<rparr>)"



text \<open>Comparing code unit by code unit.\<close>

fun codeUnitCompare :: "string \<Rightarrow> string \<Rightarrow> int" where
  "codeUnitCompare [] [] = 0"
| "codeUnitCompare [] (y # ys) = - 1"
| "codeUnitCompare (x # xs) [] = 1"
| "codeUnitCompare (x # xs) (y # ys) =
     (if (of_char x :: nat) < of_char y then - 1
      else if (of_char y :: nat) < of_char x then 1
      else codeUnitCompare xs ys)"




section \<open>The precise router (elkRouter.ts) and the facade (routerFacade.ts)\<close>

record ElkNode =
  node_id :: string
  node_x :: int
  node_y :: int
  node_width :: int
  node_height :: int

record ElkEdge =
  elk_edge_id :: string
  elk_source :: string
  elk_target :: string

record ElkSection =
  startPoint :: "GridPoint option"
  endPoint :: "GridPoint option"
  bendPoints :: "GridPoint list option"

record ElkLayoutEdge =
  layout_edge_id :: string
  sections :: "ElkSection list option"

record ElkGraph =
  graph_id :: string
  layoutOptions :: "(string \<times> string) list option"
  children :: "ElkNode list"
  graph_edges :: "ElkEdge list"

record ElkLayoutGraph =
  layout_id :: string
  layout_children :: "ElkNode list"
  layout_edges :: "ElkLayoutEdge list"

text \<open>
  The layout callback returns a promise: \<open>Inl\<close> is a promise that rejects, \<open>Inr\<close> one
  that resolves. An \<open>await\<close> of a rejected promise throws, and nothing in these sources
  catches it.
\<close>

record ElkRouterInput =
  nodes :: "ElkNode list"
  elk_edges :: "ElkEdge list"
  draftInput :: "DraftRouterInput option"
  elkLayout :: "(ElkGraph \<Rightarrow> js_error + ElkLayoutGraph) option"

definition toElkGraph :: "ElkRouterInput \<Rightarrow> ElkGraph" where
  "toElkGraph input =
    \<lparr> graph_id = ''root'',
      layoutOptions = Some
        [(''org.eclipse.elk.algorithm'', ''layered''),
         (''org.eclipse.elk.edgeRouting'', ''ORTHOGONAL''),
         (''org.eclipse.elk.interactive'', ''true''),
         (''org.eclipse.elk.interactiveLayout'', ''true''),
         (''org.eclipse.elk.layered.considerModelOrder'', ''NODES_AND_EDGES'')],
      children = nodes input,
      graph_edges = elk_edges input \<rparr>"

definition pointsFromSection :: "ElkSection \<Rightarrow> GridPoint list" where
  "pointsFromSection section =
    (case startPoint section of None \<Rightarrow> [] | Some p \<Rightarrow> [p])
    @ (case bendPoints section of None \<Rightarrow> [] | Some bs \<Rightarrow> bs)
    @ (case endPoint section of None \<Rightarrow> [] | Some p \<Rightarrow> [p])"

definition uniqueConsecutive :: "GridPoint list \<Rightarrow> GridPoint list" where
  "uniqueConsecutive ps = remdups_adj ps"

text \<open>The draft input \<open>routeElk\<close> makes up when it is given none.\<close>

definition fallbackDraftInput :: "ElkRouterInput \<Rightarrow> DraftRouterInput" where
  "fallbackDraftInput input =
    \<lparr> edges = map (\<lambda>edge.
                \<lparr> edge_id = elk_edge_id edge,
                  source = (case find (\<lambda>node. node_id node = elk_source edge) (nodes input) of
                              None \<Rightarrow> (0, 0) | Some node \<Rightarrow> (node_x node, node_y node)),
                  target = (case find (\<lambda>node. node_id node = elk_target edge) (nodes input) of
                              None \<Rightarrow> (0, 0) | Some node \<Rightarrow> (node_x node, node_y node)) \<rparr>)
              (elk_edges input),
      obstacles = None, blockedCells = None, gridStep = None, obstaclePadding = None \<rparr>"

text \<open>
  \<open>routeElk\<close>: \<open>None\<close> when the draft router never returns, \<open>Some (Inl e)\<close> when the
  layout promise rejects.
\<close>

definition routeElk ::
  "(string \<Rightarrow> string \<Rightarrow> int) \<Rightarrow> ElkRouterInput \<Rightarrow> (js_error + RouterResult) option" where
  "routeElk localeCompare input =
    (case routeDraft localeCompare
            (case draftInput input of None \<Rightarrow> fallbackDraftInput input | Some d \<Rightarrow> d) of
       None \<Rightarrow> None
     | Some draftFallback \<Rightarrow>
         (case elkLayout input of
            None \<Rightarrow>
              Some (Inr \<lparr> mode = ''elk'', routes = routes draftFallback,
                          cost = cost draftFallback, fallbackUsed = Some True \<rparr>)
          | Some layoutFn \<Rightarrow>
              (case layoutFn (toElkGraph input) of
                 Inl e \<Rightarrow> Some (Inl e)
               | Inr lay \<Rightarrow>
                   let rs = map (\<lambda>edge.
                              \<lparr> route_id = layout_edge_id edge,
                                points = uniqueConsecutive
                                  (concat (map pointsFromSection
                                     (case sections edge of None \<Rightarrow> [] | Some ss \<Rightarrow> ss))) \<rparr>)
                            (layout_edges lay);
                       normalized = map (\<lambda>route.
                              if 2 \<le> length (points route) then route
                              else (case find (\<lambda>fallback. route_id fallback = route_id route)
                                           (routes draftFallback) of
                                      None \<Rightarrow> route | Some fallback \<Rightarrow> fallback)) rs
                   in Some (Inr \<lparr> mode = ''elk'', routes = normalized,
                                  cost = evaluateRouteCost normalized,
                                  fallbackUsed = Some False \<rparr>))))"

datatype RouterMode = ModeDraft | ModeElk | ModeHybrid

record RouterStep =
  draft :: DraftRouterInput
  elk :: "ElkRouterInput option"
  step_accepted :: "bool option"
  label :: "string option"

text \<open>The cadence \<open>hybridRescoreEveryAccepted\<close> is an integer, the score an integer.\<close>

record RouterFacadeInput =
  facade_mode :: RouterMode
  facade_step :: RouterStep
  stepsForHybrid :: "RouterStep list option"
  hybridRescoreEveryAccepted :: "int option"
  score :: "(RouteCost \<Rightarrow> int) option"

record RouteDebugTrace =
  stepIndex :: nat
  trace_label :: "string option"
  trace_mode :: RouterMode
  trace_accepted :: bool
  draftCost :: RouteCost
  elkCost :: "RouteCost option"
  selectedCost :: RouteCost
  selectedScore :: int

record RouterFacadeResult =
  selected :: RouterResult
  trace :: "RouteDebugTrace list"

definition toSelectedCost :: "RouteCost \<Rightarrow> RouteCost" where
  "toSelectedCost c =
    \<lparr> route_length = route_length c, route_bends = route_bends c,
      route_crossings = route_crossings c, route_total = route_total c \<rparr>"

definition scoreCost :: "RouteCost \<Rightarrow> (RouteCost \<Rightarrow> int) option \<Rightarrow> int" where
  "scoreCost c sc = (case sc of None \<Rightarrow> route_total c | Some f \<Rightarrow> f c)"

text \<open>
  The loop of \<open>runHybrid\<close> from step \<open>i\<close> on: \<open>n\<close> is the number of steps, \<open>since\<close> the
  counter \<open>acceptedSinceElk\<close>, \<open>sel\<close> and \<open>tr\<close> the selected result and the trace so far.
\<close>

fun hybridLoop ::
  "(string \<Rightarrow> string \<Rightarrow> int) \<Rightarrow> int \<Rightarrow> (RouteCost \<Rightarrow> int) option \<Rightarrow> nat \<Rightarrow> nat \<Rightarrow> nat
     \<Rightarrow> RouterResult \<Rightarrow> RouteDebugTrace list \<Rightarrow> RouterStep list
     \<Rightarrow> (js_error + RouterFacadeResult) option" where
  "hybridLoop localeCompare every sc n i since sel tr [] =
     Some (Inr \<lparr> selected = sel, trace = tr \<rparr>)"
| "hybridLoop localeCompare every sc n i since sel tr (s # ss) =
    (let acc = (step_accepted s = Some True)
     in case routeDraft localeCompare (draft s) of
          None \<Rightarrow> None
        | Some d \<Rightarrow>
            let since1 = (if acc then since + 1 else since);
                shouldRescoreWithElk =
                  (elk s \<noteq> None \<and> (every \<le> int since1 \<or> int i = int n - 1))
            in case (if shouldRescoreWithElk
                     then (case elk s of
                             None \<Rightarrow> Some (Inr None)
                           | Some e \<Rightarrow>
                               map_option (map_sum id Some)
                                 (routeElk localeCompare (e \<lparr> draftInput := Some (draft s) \<rparr>)))
                     else Some (Inr None)) of
                 None \<Rightarrow> None
               | Some (Inl err) \<Rightarrow> Some (Inl err)
               | Some (Inr el) \<Rightarrow>
                   let since2 = (if el \<noteq> None then 0 else since1);
                       selectedCost = (case el of None \<Rightarrow> cost d | Some r \<Rightarrow> cost r);
                       entry = \<lparr> stepIndex = i, trace_label = label s,
                                 trace_mode = ModeHybrid, trace_accepted = acc,
                                 draftCost = toSelectedCost (cost d),
                                 elkCost = map_option (\<lambda>r. toSelectedCost (cost r)) el,
                                 selectedCost = toSelectedCost selectedCost,
                                 selectedScore = scoreCost selectedCost sc \<rparr>
                   in hybridLoop localeCompare every sc n (i + 1) since2
                        (case el of None \<Rightarrow> d | Some r \<Rightarrow> r) (tr @ [entry]) ss)"

text \<open>
  \<open>runHybrid\<close>. With an empty \<open>stepsForHybrid\<close>, \<open>steps[0].draft\<close> reads a property of
  \<open>undefined\<close> and throws a \<open>TypeError\<close>.
\<close>

definition runHybrid ::
  "(string \<Rightarrow> string \<Rightarrow> int) \<Rightarrow> RouterFacadeInput \<Rightarrow> (js_error + RouterFacadeResult) option" where
  "runHybrid localeCompare input =
    (let steps = (case stepsForHybrid input of None \<Rightarrow> [facade_step input] | Some ss \<Rightarrow> ss);
         every = max 1 (case hybridRescoreEveryAccepted input of None \<Rightarrow> 10 | Some e \<Rightarrow> e)
     in case steps of
          [] \<Rightarrow> Some (Inl TypeError)
        | s0 # ss \<Rightarrow>
            (case routeDraft localeCompare (draft s0) of
               None \<Rightarrow> None
             | Some sel0 \<Rightarrow>
                 hybridLoop localeCompare every (score input) (length steps) 0 0 sel0 [] steps))"

definition routeWithFacade ::
  "(string \<Rightarrow> string \<Rightarrow> int) \<Rightarrow> RouterFacadeInput \<Rightarrow> (js_error + RouterFacadeResult) option" where
  "routeWithFacade localeCompare input =
    (case facade_mode input of
       ModeDraft \<Rightarrow>
         (case routeDraft localeCompare (draft (facade_step input)) of
            None \<Rightarrow> None
          | Some d \<Rightarrow>
              Some (Inr \<lparr> selected = d,
                          trace = [\<lparr> stepIndex = 0, trace_label = label (facade_step input),
                                     trace_mode = ModeDraft,
                                     trace_accepted = (step_accepted (facade_step input) = Some True),
                                     draftCost = toSelectedCost (cost d),
                                     elkCost = None,
                                     selectedCost = toSelectedCost (cost d),
                                     selectedScore = scoreCost (cost d) (score input) \<rparr>] \<rparr>))
     | ModeElk \<Rightarrow>
         (case routeElk localeCompare
                 ((case elk (facade_step input) of
                     None \<Rightarrow> \<lparr> nodes = [], elk_edges = [], draftInput = None, elkLayout = None \<rparr>
                   | Some e \<Rightarrow> e) \<lparr> draftInput := Some (draft (facade_step input)) \<rparr>) of
            None \<Rightarrow> None
          | Some (Inl err) \<Rightarrow> Some (Inl err)
          | Some (Inr el) \<Rightarrow>
              (case routeDraft localeCompare (draft (facade_step input)) of
                 None \<Rightarrow> None
               | Some d \<Rightarrow>
                   Some (Inr \<lparr> selected = el,
                               trace = [\<lparr> stepIndex = 0, trace_label = label (facade_step input),
                                          trace_mode = ModeElk,
                                          trace_accepted =
                                            (step_accepted (facade_step input) = Some True),
                                          draftCost = toSelectedCost (cost d),
                                          elkCost = Some (toSelectedCost (cost el)),
                                          selectedCost = toSelectedCost (cost el),
                                          selectedScore = scoreCost (cost el) (score input) \<rparr>]
                             \<rparr>)))
     | ModeHybrid \<Rightarrow> runHybrid localeCompare input)"

subsection \<open>The cadence, for the properties\<close>

text \<open>
  The rescoring decisions of the loop alone: for each step whether a precise router is
  attached and whether the step is accepted, from step \<open>i\<close> with the counter \<open>since\<close>.
\<close>

fun rescoreFlags :: "int \<Rightarrow> nat \<Rightarrow> nat \<Rightarrow> nat \<Rightarrow> (bool \<times> bool) list \<Rightarrow> bool list" where
  "rescoreFlags every n i since [] = []"
| "rescoreFlags every n i since ((attached, acc) # xs) =
    (let since1 = (if acc then since + 1 else since);
         inv = (attached \<and> (every \<le> int since1 \<or> int i = int n - 1))
     in inv # rescoreFlags every n (i + 1) (if inv then 0 else since1) xs)"

text \<open>
  The count of accepted steps since the last precise invocation, at step \<open>i\<close>: the
  accepted ones among step \<open>i\<close> and the steps before it back to the last rescored one,
  which is left out. \<open>invoked\<close> and \<open>accs\<close> say per step whether it was rescored and
  whether it was accepted.
\<close>

definition acceptedSinceRescore :: "bool list \<Rightarrow> bool list \<Rightarrow> nat \<Rightarrow> nat" where
  "acceptedSinceRescore invoked accs i =
    (let k = length (takeWhile Not (rev (take i invoked)))
     in length (filter id (drop (i - k) (take (i + 1) accs))))"

text \<open>
  A step over an empty draft input with a precise router attached (one that lays out no
  edge), and a hybrid run over such steps at the default cadence.
\<close>

definition lateStep :: "bool \<Rightarrow> RouterStep" where
  "lateStep acc =
    \<lparr> draft = \<lparr> edges = [], obstacles = None, blockedCells = None, gridStep = None,
                obstaclePadding = None \<rparr>,
      elk = Some \<lparr> nodes = [], elk_edges = [], draftInput = None,
                   elkLayout = Some (\<lambda>g. Inr \<lparr> layout_id = ''root'', layout_children = [],
                                                 layout_edges = [] \<rparr>) \<rparr>,
      step_accepted = Some acc, label = None \<rparr>"

definition hybridInput :: "bool list \<Rightarrow> RouterFacadeInput" where
  "hybridInput accs =
    \<lparr> facade_mode = ModeHybrid, facade_step = lateStep False,
      stepsForHybrid = Some (map lateStep accs),
      hybridRescoreEveryAccepted = Some 10, score = None \<rparr>"

text \<open>The steps of a run at which the precise router was invoked, read off the trace.\<close>

definition rescoredAt :: "(js_error + RouterFacadeResult) option \<Rightarrow> bool list option" where
  "rescoredAt r =
    (case r of
       Some (Inr res) \<Rightarrow> Some (map (\<lambda>entry. elkCost entry \<noteq> None) (trace res))
     | _ \<Rightarrow> None)"

section \<open>Properties of the cost model\<close>

lemma jmul_one [simp]: "jmul v (Num 1) = v"
  by (cases v) simp_all

text \<open>
  Claim C3. For every layout input, routing input and weight configuration, the total of
  the breakdown returned by \<open>computeCost\<close> is the sum, in the order of the source, of its
  nine terms \<open>L + X + B + F_out + F_down + F + S_span + S_waste + S\<close>. Each term is its
  base measurement times its own weight, the weight 1 when none is configured; \<open>F\<close> is the
  weighted sum of the two flow measurements and \<open>S\<close> the weighted sum of the span and waste
  measurements.
\<close>

theorem computeCost_total_is_weighted_sum:
  fixes layout :: LayoutCostInput and routing :: RoutingCostInput and config :: CostConfig
  defines "r \<equiv> computeCost layout routing config"
  defines "w \<equiv> (\<lambda>k. case (case weights config of None \<Rightarrow> Map.empty | Some m \<Rightarrow> m) k of
                        None \<Rightarrow> Num 1 | Some v \<Rightarrow> v)"
  defines "baseL \<equiv> sum_values (map jabs (case positions layout of None \<Rightarrow> [] | Some p \<Rightarrow> p))"
  defines "baseSSpan \<equiv> sum_values (map jabs (case spans layout of Some s \<Rightarrow> s
               | None \<Rightarrow> (case routingSpans routing of Some s \<Rightarrow> s | None \<Rightarrow> [])))"
  shows "total r = jadd (jadd (jadd (jadd (jadd (jadd (jadd (jadd (L r) (X r)) (B r))
                     (F_out r)) (F_down r)) (F r)) (S_span r)) (S_waste r)) (S r)
       \<and> L r = jmul baseL (w ''L'')
       \<and> X r = jmul (finiteOrZero (crossings routing)) (w ''X'')
       \<and> B r = jmul (finiteOrZero (bends routing)) (w ''B'')
       \<and> F_out r = jmul (finiteOrZero (flowOutViolations routing)) (w ''F_out'')
       \<and> F_down r = jmul (finiteOrZero (flowDownViolations routing)) (w ''F_down'')
       \<and> F r = jmul (jadd (finiteOrZero (flowOutViolations routing))
                          (finiteOrZero (flowDownViolations routing))) (w ''F'')
       \<and> S_span r = jmul baseSSpan (w ''S_span'')
       \<and> S_waste r = jmul (finiteOrZero (waste layout)) (w ''S_waste'')
       \<and> S r = jmul (jadd baseSSpan (finiteOrZero (waste layout))) (w ''S'')"
  unfolding r_def w_def baseL_def baseSSpan_def
  by (simp add: computeCost_def Let_def weighted_def split: option.splits)

text \<open>
  Claim C4. The claim says that a non-finite value anywhere in the inputs, entries of the
  positions and spans arrays included, is treated as 0, so that no term of the breakdown
  is \<open>NaN\<close> or infinite. \<open>finiteOrZero\<close> guards the five scalar measurements only: the
  entries of \<open>positions\<close> and \<open>spans\<close> go through \<open>Math.abs\<close> and \<open>sum\<close> unguarded. For the
  single position \<open>NaN\<close> and nothing else, the terms \<open>L\<close> and \<open>total\<close> are \<open>NaN\<close>.
\<close>

theorem computeCost_nan_position:
  "computeCost \<lparr> positions = Some [NaN], spans = None, waste = None \<rparr>
     \<lparr> crossings = None, bends = None, flowOutViolations = None, flowDownViolations = None,
       routingSpans = None \<rparr> \<lparr> weights = None \<rparr>
   = \<lparr> total = NaN, L = NaN, X = Num 0, B = Num 0, F_out = Num 0, F_down = Num 0,
       F = Num 0, S_span = Num 0, S_waste = Num 0, S = Num 0 \<rparr>"
  by (simp add: computeCost_def Let_def weighted_def finiteOrZero_def sum_values_def)

text \<open>
  The same for an infinite span, read from the routing input: \<open>S_span\<close>, \<open>S\<close> and \<open>total\<close>
  are infinite.
\<close>

lemma computeCost_infinite_span:
  "computeCost \<lparr> positions = None, spans = None, waste = None \<rparr>
     \<lparr> crossings = None, bends = None, flowOutViolations = None, flowDownViolations = None,
       routingSpans = Some [NegInf] \<rparr> \<lparr> weights = None \<rparr>
   = \<lparr> total = PosInf, L = Num 0, X = Num 0, B = Num 0, F_out = Num 0, F_down = Num 0,
       F = Num 0, S_span = PosInf, S_waste = Num 0, S = PosInf \<rparr>"
  by (simp add: computeCost_def Let_def weighted_def finiteOrZero_def sum_values_def)

text \<open>The guarded part: a scalar measurement that is missing or not finite counts as 0.\<close>

lemma finiteOrZero_finite: "isFinite (finiteOrZero v)"
  by (simp add: finiteOrZero_def split: option.splits)

section \<open>Properties of the annealing engine\<close>

subsection \<open>The random number generator\<close>

lemma toInt32_signed [simp]: "toInt32 (Num (signed (x :: 32 word))) = x"
proof -
  have eq: "(signed x :: real) = real_of_int (sint x)" by simp
  show ?thesis unfolding toInt32.simps eq by (simp del: of_int_sint, simp)
qed

lemma sanitizeSeed_nonzero: "sanitizeSeed s \<noteq> 0"
  by (simp add: sanitizeSeed_def Let_def)

lemma sanitizeSeed_remaps_zero: "toInt32 s = 0 \<Longrightarrow> sanitizeSeed s = 0x6d2b79f5"
  by (simp add: sanitizeSeed_def Let_def)

lemma nextRng_seed_nonzero: "seed (snd (nextRng r)) \<noteq> 0"
  by (simp add: nextRng_def Let_def sanitizeSeed_nonzero)

lemma unit_interval_word:
  "0 \<le> real_of_int (uint (w :: 32 word)) / 4294967296 \<and>
   real_of_int (uint w) / 4294967296 < 1"
  using uint_lt2p [of w] by (simp del: of_int_uint)

lemma nextRng_range: "0 \<le> fst (nextRng r) \<and> fst (nextRng r) < 1"
  unfolding nextRng_def Let_def fst_conv by (rule unit_interval_word)

lemma randInt_seed_nonzero:
  "seed r \<noteq> 0 \<Longrightarrow> seed (snd (randInt m r)) \<noteq> 0"
  using nextRng_seed_nonzero [of r]
  by (auto simp add: randInt_def split: prod.splits)

lemma randInt_seed_nonzero':
  "randInt m r = (v, r') \<Longrightarrow> seed r \<noteq> 0 \<Longrightarrow> seed r' \<noteq> 0"
  using randInt_seed_nonzero [of r m] by simp

text \<open>A draw below a positive bound is an index below the bound.\<close>

lemma randInt_less:
  assumes "0 < m"
  shows "int (fst (randInt m r)) < m"
proof -
  obtain u r' where nr: "nextRng r = (u, r')" by (cases "nextRng r")
  with nextRng_range [of r] have u: "0 \<le> u" "u < 1" by simp_all
  have "u * real_of_int m < real_of_int m" using u assms by simp
  then have "\<lfloor>u * real_of_int m\<rfloor> < m" by linarith
  moreover have "0 \<le> \<lfloor>u * real_of_int m\<rfloor>" using u assms by simp
  ultimately show ?thesis using assms nr by (simp add: randInt_def)
qed

lemma redrawDistinct_seed_nonzero:
  assumes "redrawDistinct n a b r = Some res"
  shows "seed r \<noteq> 0 \<longrightarrow> seed (snd res) \<noteq> 0"
proof (rule redrawDistinct.raw_induct
    [where P = "\<lambda>n a b r res. seed r \<noteq> 0 \<longrightarrow> seed (snd res) \<noteq> 0", OF _ assms], goal_cases)
  case (1 f n a b r res)
  show ?case
  proof (cases "b = a")
    case True
    obtain b' r' where ri: "randInt n r = (b', r')" by (cases "randInt n r")
    from 1(2) True ri have "f n a b' r' = Some res" by simp
    then have "seed r' \<noteq> 0 \<longrightarrow> seed (snd res) \<noteq> 0" by (rule 1(1))
    moreover have "seed r \<noteq> 0 \<longrightarrow> seed r' \<noteq> 0"
      using randInt_seed_nonzero [of r n] ri by simp
    ultimately show ?thesis by blast
  next
    case False
    with 1(2) show ?thesis by auto
  qed
qed

text \<open>When the redraw loop of a swap proposal ends, the two indices differ.\<close>

lemma redrawDistinct_distinct:
  assumes "redrawDistinct n a b r = Some res"
  shows "fst res \<noteq> a"
proof (rule redrawDistinct.raw_induct
    [where P = "\<lambda>n a b r res. fst res \<noteq> a", OF _ assms], goal_cases)
  case (1 f n a b r res)
  then show ?case by (auto split: if_splits prod.splits)
qed

lemma proposeMove_seed_nonzero:
  assumes "proposeMove st = Some m" and "seed (rngState st) \<noteq> 0"
  shows "seed (rngStateAfterProposal m) \<noteq> 0"
proof -
  let ?n = "int (length (layout st))"
  let ?k = "int (length ([''nudge'', ''swap'', ''reinsert'']
                   @ (if enableBlockShift (problem st) = Some True then [''blockShift''] else [])))"
  obtain mi r1 where d1: "randInt ?k (rngState st) = (mi, r1)"
    by (cases "randInt ?k (rngState st)")
  obtain v2 r2 where d2: "randInt ?n r1 = (v2, r2)" by (cases "randInt ?n r1")
  obtain v3 r3 where d3: "randInt ?n r2 = (v3, r3)" by (cases "randInt ?n r2")
  obtain v4 r4 where d4: "randInt 3 r3 = (v4, r4)" by (cases "randInt 3 r3")
  let ?sm = "max 1 (case maxNudgeStep (problem st) of None \<Rightarrow> 1 | Some m \<Rightarrow> m)"
  obtain v5 r5 where d5: "randInt ?sm r2 = (v5, r5)" by (cases "randInt ?sm r2")
  obtain v6 r6 where d6: "randInt 2 r5 = (v6, r6)" by (cases "randInt 2 r5")
  have n1: "seed r1 \<noteq> 0" using randInt_seed_nonzero' [OF d1 assms(2)] .
  have n2: "seed r2 \<noteq> 0" using randInt_seed_nonzero' [OF d2 n1] .
  have n3: "seed r3 \<noteq> 0" using randInt_seed_nonzero' [OF d3 n2] .
  have n4: "seed r4 \<noteq> 0" using randInt_seed_nonzero' [OF d4 n3] .
  have n5: "seed r5 \<noteq> 0" using randInt_seed_nonzero' [OF d5 n2] .
  have n6: "seed r6 \<noteq> 0" using randInt_seed_nonzero' [OF d6 n5] .
  have rd: "\<And>res. redrawDistinct ?n v2 v3 r3 = Some res \<Longrightarrow> seed (snd res) \<noteq> 0"
    using redrawDistinct_seed_nonzero n3 by blast
  show ?thesis
    using assms(1) d1 d2 d3 d4 d5 d6 n3 n4 n6 rd
    by (auto simp: proposeMove_def Let_def split: if_splits option.splits prod.splits)
qed

subsection \<open>One step\<close>

lemma stepAnneal_eq:
  "stepAnneal st =
    (case proposeMove st of
       None \<Rightarrow> None
     | Some mv \<Rightarrow>
         let t = (acceptMove st (applyMove st mv)) \<lparr> proposal := mv \<rparr>
         in Some (t, appendTransition (buildNextStateFromTransition st t) t))"
  by (simp add: stepAnneal_def Let_def appendTransition_def buildNextStateFromTransition_def
      split: option.splits)

lemma stepAnneal_Some:
  assumes "stepAnneal st = Some (t, st')"
  shows "\<exists>mv. proposeMove st = Some mv
           \<and> t = (acceptMove st (applyMove st mv)) \<lparr> proposal := mv \<rparr>
           \<and> st' = appendTransition (buildNextStateFromTransition st t) t"
  using assms unfolding stepAnneal_eq by (auto simp: Let_def split: option.splits)

lemma acceptMove_before [simp]: "before (acceptMove st c) = cloneSnapshot st"
  by (simp add: acceptMove_def Let_def split: prod.splits)

lemma acceptMove_after_temperature [simp]:
  "temperature (after (acceptMove st c)) = cool (problem st) (temperature st)"
  by (simp add: acceptMove_def Let_def split: prod.splits)

lemma acceptMove_after_iteration [simp]:
  "iteration (after (acceptMove st c)) = iteration st + 1"
  by (simp add: acceptMove_def Let_def split: prod.splits)

lemma acceptMove_after_seed_nonzero:
  "seed (rngState c) \<noteq> 0 \<Longrightarrow> seed (rngState (after (acceptMove st c))) \<noteq> 0"
  using nextRng_seed_nonzero [of "rngState c"]
  by (auto simp: acceptMove_def Let_def split: prod.splits)

lemma acceptMove_layout:
  "layout (after (acceptMove st c)) = layout c \<or> layout (after (acceptMove st c)) = layout st"
  by (simp add: acceptMove_def Let_def split: prod.splits)

lemma applyMove_rngState [simp]: "rngState (applyMove st mv) = rngStateAfterProposal mv"
  by (simp add: applyMove_def Let_def)

lemma applyMove_costBreakdown [simp]:
  "costBreakdown (applyMove st mv) = evaluateCost (problem st) (moveLayout (layout st) mv)"
  by (simp add: applyMove_def Let_def)

text \<open>What one step does to the session, field by field.\<close>

lemma stepAnneal_fields:
  assumes "stepAnneal st = Some (t, st')"
  shows "before t = cloneSnapshot st"
    and "iteration st' = iteration st + 1"
    and "temperature st' = cool (problem st) (temperature st)"
    and "temperature (after t) = cool (problem st) (temperature st)"
    and "rngState st' = rngState (after t)"
    and "layout st' = layout (after t)"
    and "costBreakdown st' = costBreakdown (after t)"
    and "problem st' = problem st"
    and "fullTraceEnabled st' = fullTraceEnabled st"
    and "transitionBuffer st' =
          \<lparr> capacity = capacity (transitionBuffer st),
            head = (head (transitionBuffer st) + 1) mod capacity (transitionBuffer st),
            size = min (size (transitionBuffer st) + 1) (capacity (transitionBuffer st)),
            entries = setEntry (entries (transitionBuffer st)) (head (transitionBuffer st)) t \<rparr>"
    and "fullTrace st' = (if fullTraceEnabled st then fullTrace st @ [t] else fullTrace st)"
  using stepAnneal_Some [OF assms]
  by (auto simp: appendTransition_def buildNextStateFromTransition_def Let_def)

lemma stepAnneal_seed_nonzero:
  assumes "stepAnneal st = Some (t, st')" and "seed (rngState st) \<noteq> 0"
  shows "seed (rngStateAfterProposal (proposal t)) \<noteq> 0
       \<and> seed (rngState (before t)) \<noteq> 0
       \<and> seed (rngState (after t)) \<noteq> 0
       \<and> seed (rngState st') \<noteq> 0"
proof -
  from stepAnneal_Some [OF assms(1)] obtain mv where
    p: "proposeMove st = Some mv" and
    t: "t = (acceptMove st (applyMove st mv)) \<lparr> proposal := mv \<rparr>" by blast
  have a: "seed (rngStateAfterProposal mv) \<noteq> 0"
    using proposeMove_seed_nonzero [OF p assms(2)] .
  have b: "seed (rngState (after (acceptMove st (applyMove st mv)))) \<noteq> 0"
    by (rule acceptMove_after_seed_nonzero) (simp add: a)
  show ?thesis
    using a b assms(2) t stepAnneal_fields(5) [OF assms(1)]
    by (simp add: cloneSnapshot_def)
qed

text \<open>
  On a layout of at most one element no proposal enters the redraw loop, so every step
  returns, and so does every run.
\<close>

lemma proposeMove_small:
  assumes "length (layout st) \<le> 1"
  shows "\<exists>mv. proposeMove st = Some mv"
  using assms by (simp add: proposeMove_def Let_def split: prod.splits)

lemma moveLayout_small: "length lay \<le> 1 \<Longrightarrow> length (moveLayout lay mv) \<le> 1"
  by (cases mv) (auto simp: moveLayout_def Let_def)

lemma stepAnneal_small:
  assumes "length (layout st) \<le> 1"
  shows "\<exists>t st'. stepAnneal st = Some (t, st') \<and> length (layout st') \<le> 1"
proof -
  from proposeMove_small [OF assms] obtain mv where p: "proposeMove st = Some mv" by blast
  then obtain t st' where s: "stepAnneal st = Some (t, st')"
    by (simp add: stepAnneal_eq Let_def)
  from stepAnneal_Some [OF s] p
  have t: "t = (acceptMove st (applyMove st mv)) \<lparr> proposal := mv \<rparr>"
    by auto
  have "layout (applyMove st mv) = moveLayout (layout st) mv"
    by (simp add: applyMove_def Let_def)
  with moveLayout_small [OF assms, of mv] have "length (layout (applyMove st mv)) \<le> 1"
    by simp
  with acceptMove_layout [of st "applyMove st mv"] assms t
  have "length (layout (after t)) \<le> 1" by auto
  with stepAnneal_fields(6) [OF s] s show ?thesis by simp
qed

subsection \<open>Runs\<close>

lemma runSteps_Suc_Some:
  assumes "runSteps (Suc n) st = Some (ts, st')"
  shows "\<exists>t st1 ts1. stepAnneal st = Some (t, st1) \<and> runSteps n st1 = Some (ts1, st')
           \<and> ts = t # ts1"
  using assms by (auto split: option.splits prod.splits)

lemma runSteps_small:
  "length (layout st) \<le> 1 \<Longrightarrow> \<exists>ts st'. runSteps n st = Some (ts, st')"
proof (induction n arbitrary: st)
  case 0
  then show ?case by simp
next
  case (Suc n)
  from stepAnneal_small [OF Suc.prems] obtain t st1 where
    s: "stepAnneal st = Some (t, st1)" and l: "length (layout st1) \<le> 1" by blast
  from Suc.IH [OF l] obtain ts st' where "runSteps n st1 = Some (ts, st')" by blast
  with s show ?case by simp
qed

lemma runSteps_length: "runSteps n st = Some (ts, st') \<Longrightarrow> length ts = n"
proof (induction n arbitrary: st ts)
  case 0
  then show ?case by simp
next
  case (Suc n)
  from runSteps_Suc_Some [OF Suc.prems] obtain t st1 ts1 where
    r: "runSteps n st1 = Some (ts1, st')" and ts: "ts = t # ts1" by blast
  from Suc.IH [OF r] ts show ?case by simp
qed

lemma runSteps_frame:
  "runSteps n st = Some (ts, st') \<Longrightarrow>
     problem st' = problem st \<and>
     capacity (transitionBuffer st') = capacity (transitionBuffer st)"
proof (induction n arbitrary: st ts)
  case 0
  then show ?case by simp
next
  case (Suc n)
  from runSteps_Suc_Some [OF Suc.prems] obtain t st1 ts1 where
    s: "stepAnneal st = Some (t, st1)" and r: "runSteps n st1 = Some (ts1, st')"
    by blast
  from Suc.IH [OF r] stepAnneal_fields(8,10) [OF s] show ?case by simp
qed

lemma runSteps_seed_nonzero:
  "runSteps n st = Some (ts, st') \<Longrightarrow> seed (rngState st) \<noteq> 0 \<Longrightarrow>
     seed (rngState st') \<noteq> 0 \<and>
     (\<forall>t \<in> set ts. seed (rngStateAfterProposal (proposal t)) \<noteq> 0
        \<and> seed (rngState (before t)) \<noteq> 0 \<and> seed (rngState (after t)) \<noteq> 0)"
proof (induction n arbitrary: st ts)
  case 0
  then show ?case by simp
next
  case (Suc n)
  from runSteps_Suc_Some [OF Suc.prems(1)] obtain t st1 ts1 where
    s: "stepAnneal st = Some (t, st1)" and r: "runSteps n st1 = Some (ts1, st')"
    and ts: "ts = t # ts1" by blast
  from stepAnneal_seed_nonzero [OF s Suc.prems(2)] Suc.IH [OF r] ts
  show ?case by simp
qed

lemma initializeAnneal_fields:
  assumes "initializeAnneal p s = Inr st0"
  shows "rngState st0 = \<lparr> seed = sanitizeSeed s \<rparr>"
    and "problem st0 = p"
    and "temperature st0 = jmax (case initialTemperature p of
                                   None \<Rightarrow> DEFAULT_INITIAL_TEMPERATURE | Some t \<Rightarrow> t) (Num 0)"
    and "transitionBuffer st0 = makeRingBuffer (nat (max 1 (case transitionBufferSize p of
                               None \<Rightarrow> DEFAULT_TRANSITION_BUFFER_SIZE | Some n \<Rightarrow> n)))"
    and "iteration st0 = 0"
    and "layout st0 = initialLayout p"
    and "costBreakdown st0 = evaluateCost p (initialLayout p)"
    and "fullTrace st0 = []"
  using assms by (auto simp: initializeAnneal_def Let_def split: if_splits)

lemma demo_init:
  "\<exists>st0. initializeAnneal demoProblem s = Inr st0 \<and> layout st0 = [5]
      \<and> capacity (transitionBuffer st0) = 2 \<and> temperature st0 = Num 10"
  by (simp add: initializeAnneal_def demoProblem_def Let_def makeRingBuffer_def
      DEFAULT_INITIAL_TEMPERATURE_def)

subsection \<open>The seed is never zero\<close>

text \<open>
  Claim C7. In every state a session reaches, after initialisation with any seed (0
  included) and after any number of steps, the stored seed is not zero; so are the seed
  a proposal carries and the seeds of the snapshots of every transition. Every draw
  returns a state whose seed is not zero, whatever state it is given, and \<open>sanitizeSeed\<close>
  maps every number that \<open>| 0\<close> turns into 0 to \<open>0x6d2b79f5\<close>. A draw is the function
  \<open>nextRng\<close> from a state to a value and a new state, as in the source, which builds the
  next state and leaves its argument alone.
\<close>

theorem rng_seed_never_zero:
  assumes "initializeAnneal p s = Inr st0" and "runSteps n st0 = Some (ts, st)"
  shows "seed (rngState st0) \<noteq> 0 \<and> seed (rngState st) \<noteq> 0
       \<and> (\<forall>t \<in> set ts. seed (rngStateAfterProposal (proposal t)) \<noteq> 0
             \<and> seed (rngState (before t)) \<noteq> 0 \<and> seed (rngState (after t)) \<noteq> 0)
       \<and> (\<forall>r. seed (snd (nextRng r)) \<noteq> 0)
       \<and> (\<forall>v. sanitizeSeed v \<noteq> 0 \<and> (toInt32 v = 0 \<longrightarrow> sanitizeSeed v = 0x6d2b79f5))"
proof -
  have s0: "seed (rngState st0) \<noteq> 0"
    using initializeAnneal_fields(1) [OF assms(1)] by (simp add: sanitizeSeed_nonzero)
  from runSteps_seed_nonzero [OF assms(2) s0] s0 show ?thesis
    by (simp add: nextRng_seed_nonzero sanitizeSeed_nonzero sanitizeSeed_remaps_zero)
qed

text \<open>Three steps from the seed 0, which initialisation remaps.\<close>

theorem rng_seed_never_zero_witness:
  "\<exists>st0 ts st. initializeAnneal demoProblem (Num 0) = Inr st0 \<and> runSteps 3 st0 = Some (ts, st)
     \<and> seed (rngState st0) = 0x6d2b79f5 \<and> seed (rngState st) \<noteq> 0
     \<and> length ts = 3
     \<and> (\<forall>i<3. seed (rngStateAfterProposal (proposal (ts ! i))) \<noteq> 0
             \<and> seed (rngState (before (ts ! i))) \<noteq> 0 \<and> seed (rngState (after (ts ! i))) \<noteq> 0)
     \<and> toInt32 (Num 0) = 0 \<and> sanitizeSeed (Num 0) = 0x6d2b79f5"
proof -
  from demo_init [of "Num 0"] obtain st0 where
    i: "initializeAnneal demoProblem (Num 0) = Inr st0" and l: "layout st0 = [5]" by auto
  from runSteps_small [of st0 3] l obtain ts st where r: "runSteps 3 st0 = Some (ts, st)"
    by auto
  have len: "length ts = 3" using runSteps_length [OF r] .
  have s0: "seed (rngState st0) = 0x6d2b79f5"
    using initializeAnneal_fields(1) [OF i] by (simp add: sanitizeSeed_def)
  from rng_seed_never_zero [OF i r] i r s0 len show ?thesis
    by (auto simp: sanitizeSeed_def)
qed

subsection \<open>The ring buffer\<close>

lemma ringHolds_init: "1 \<le> c \<Longrightarrow> ringHolds (makeRingBuffer c) []"
  by (simp add: ringHolds_def makeRingBuffer_def)

lemma mod_neq_of_close:
  fixes k n c :: nat
  assumes "k < n" and "n < k + c"
  shows "k mod c \<noteq> n mod c"
proof
  assume "k mod c = n mod c"
  then have "c dvd n - k" using assms(1)
    by (metis mod_eq_dvd_iff_nat less_imp_le_nat)
  moreover have "0 < n - k" "n - k < c" using assms by simp_all
  ultimately show False by (auto dest: dvd_imp_le)
qed

lemma ringHolds_append:
  assumes "ringHolds rb hs"
  shows "ringHolds \<lparr> capacity = capacity rb,
                     head = (head rb + 1) mod capacity rb,
                     size = min (size rb + 1) (capacity rb),
                     entries = setEntry (entries rb) (head rb) t \<rparr> (hs @ [t])"
proof -
  let ?c = "capacity rb" and ?n = "length hs"
  from assms have c: "1 \<le> ?c" and len: "length (entries rb) = ?c"
    and hd: "head rb = ?n mod ?c" and sz: "size rb = min ?n ?c"
    and ent: "\<And>k. k < ?n \<Longrightarrow> ?n \<le> k + ?c \<Longrightarrow> entries rb ! (k mod ?c) = Some (hs ! k)"
    by (simp_all add: ringHolds_def)
  have hlt: "head rb < length (entries rb)" using c hd len by simp
  then have se: "setEntry (entries rb) (head rb) t = (entries rb)[head rb := Some t]"
    by (simp add: setEntry_def)
  have "(entries rb)[head rb := Some t] ! (k mod ?c) = Some ((hs @ [t]) ! k)"
    if k: "k < Suc ?n" "Suc ?n \<le> k + ?c" for k
  proof (cases "k = ?n")
    case True
    then show ?thesis using hlt hd by simp
  next
    case False
    with k have kn: "k < ?n" by simp
    with k have "k mod ?c \<noteq> ?n mod ?c" by (intro mod_neq_of_close) simp_all
    then have "(entries rb)[head rb := Some t] ! (k mod ?c) = entries rb ! (k mod ?c)"
      using hd by simp
    also have "\<dots> = Some (hs ! k)" using kn k by (intro ent) simp_all
    finally show ?thesis using kn by (simp add: nth_append)
  qed
  then show ?thesis
    using c len hd sz se by (simp add: ringHolds_def mod_Suc_eq min_def)
qed

text \<open>The index \<open>exportTransitionRing\<close> computes for its \<open>i\<close>-th entry.\<close>

lemma ring_index:
  fixes n c sz i :: nat
  assumes "0 < c" and "sz \<le> n" and "sz \<le> c"
  shows "js_rem (int (n mod c) - int sz + int i + int c) (int c) = int ((n - sz + i) mod c)"
proof -
  let ?v = "int (n mod c) - int sz + int i + int c"
  have nonneg: "0 \<le> ?v" using assms by simp
  have "?v = (int n mod int c + (int i - int sz)) + int c"
    by (simp add: zmod_int)
  then have "?v mod int c = (int n mod int c + (int i - int sz)) mod int c"
    by (simp only: mod_add_self2)
  also have "\<dots> = (int n + (int i - int sz)) mod int c"
    by (simp add: mod_add_left_eq)
  also have "\<dots> = int (n - sz + i) mod int c"
    using assms(2) by (simp add: algebra_simps of_nat_diff)
  finally have "?v mod int c = int ((n - sz + i) mod c)" by (simp add: zmod_int)
  moreover have "js_rem ?v (int c) = ?v mod int c"
  proof (cases "?v = 0")
    case True
    then show ?thesis by (simp add: js_rem_def)
  next
    case False
    with nonneg have "0 < ?v" by linarith
    then show ?thesis using assms(1) by (simp add: js_rem_def)
  qed
  ultimately show ?thesis by simp
qed

lemma map_filter_Some:
  assumes "\<And>x. x \<in> set xs \<Longrightarrow> f x = Some (g x)"
  shows "List.map_filter f xs = map g xs"
  using assms by (induction xs) simp_all

lemma ringHolds_export:
  assumes "ringHolds (transitionBuffer st) hs"
  shows "exportTransitionRing st = drop (length hs - capacity (transitionBuffer st)) hs"
proof -
  let ?rb = "transitionBuffer st"
  let ?c = "capacity ?rb" and ?n = "length hs" and ?sz = "size ?rb"
  from assms have c: "1 \<le> ?c" and len: "length (entries ?rb) = ?c"
    and hd: "head ?rb = ?n mod ?c" and sz: "?sz = min ?n ?c"
    and ent: "\<And>k. k < ?n \<Longrightarrow> ?n \<le> k + ?c \<Longrightarrow> entries ?rb ! (k mod ?c) = Some (hs ! k)"
    by (simp_all add: ringHolds_def)
  have each: "entryAt (entries ?rb)
                (js_rem (int (head ?rb) - int ?sz + int i + int ?c) (int ?c))
              = Some (hs ! (?n - ?sz + i))" if "i \<in> set [0 ..< ?sz]" for i
  proof -
    from that have i: "i < ?sz" by simp
    have idx: "js_rem (int (head ?rb) - int ?sz + int i + int ?c) (int ?c)
               = int ((?n - ?sz + i) mod ?c)"
      unfolding hd using c sz by (intro ring_index) simp_all
    have "(?n - ?sz + i) mod ?c < length (entries ?rb)" using c len by simp
    then have "entryAt (entries ?rb) (int ((?n - ?sz + i) mod ?c))
               = entries ?rb ! ((?n - ?sz + i) mod ?c)"
      by (simp add: entryAt_def)
    also have "\<dots> = Some (hs ! (?n - ?sz + i))"
      using i sz by (intro ent) (simp_all add: min_def split: if_splits)
    finally show ?thesis using idx by simp
  qed
  have "exportTransitionRing st = map (\<lambda>i. hs ! (?n - ?sz + i)) [0 ..< ?sz]"
    unfolding exportTransitionRing_def Let_def by (rule map_filter_Some) (rule each)
  also have "\<dots> = drop (?n - ?sz) hs"
  proof (rule nth_equalityI)
    show "length (map (\<lambda>i. hs ! (?n - ?sz + i)) [0 ..< ?sz]) = length (drop (?n - ?sz) hs)"
      using sz by simp
  next
    fix i assume "i < length (map (\<lambda>i. hs ! (?n - ?sz + i)) [0 ..< ?sz])"
    then show "map (\<lambda>i. hs ! (?n - ?sz + i)) [0 ..< ?sz] ! i = drop (?n - ?sz) hs ! i"
      using sz by simp
  qed
  also have "?n - ?sz = ?n - ?c" using sz by simp
  finally show ?thesis .
qed

lemma runSteps_ring:
  "runSteps n st = Some (ts, st') \<Longrightarrow> ringHolds (transitionBuffer st) hs
     \<Longrightarrow> ringHolds (transitionBuffer st') (hs @ ts)"
proof (induction n arbitrary: st ts hs)
  case 0
  then show ?case by simp
next
  case (Suc n)
  from runSteps_Suc_Some [OF Suc.prems(1)] obtain t st1 ts1 where
    s: "stepAnneal st = Some (t, st1)" and r: "runSteps n st1 = Some (ts1, st')"
    and ts: "ts = t # ts1" by blast
  have "ringHolds (transitionBuffer st1) (hs @ [t])"
    unfolding stepAnneal_fields(10) [OF s] by (rule ringHolds_append) (rule Suc.prems(2))
  from Suc.IH [OF r this] show ?case using ts by simp
qed

text \<open>
  Claim C6. For a session initialised with a ring of capacity \<open>c\<close> (which is at least 1)
  and run for \<open>n\<close> steps, \<open>exportTransitionRing\<close> returns the last \<open>min n c\<close> of the \<open>n\<close>
  transitions, in step order: exactly \<open>min n c\<close> of them, whether or not the ring has
  wrapped around.
\<close>

theorem ring_export_last_entries:
  assumes "initializeAnneal p s = Inr st0" and "runSteps n st0 = Some (ts, st)"
    and "c = capacity (transitionBuffer st0)"
  shows "1 \<le> c \<and> length ts = n
       \<and> exportTransitionRing st = drop (n - min n c) ts
       \<and> length (exportTransitionRing st) = min n c"
proof -
  have tb: "transitionBuffer st0 = makeRingBuffer c" and c: "1 \<le> c"
    using initializeAnneal_fields(4) [OF assms(1)] assms(3)
    by (simp_all add: makeRingBuffer_def)
  have "ringHolds (transitionBuffer st0) []" unfolding tb by (rule ringHolds_init) (rule c)
  from runSteps_ring [OF assms(2) this]
  have rh: "ringHolds (transitionBuffer st) ts" by simp
  have len: "length ts = n" using runSteps_length [OF assms(2)] .
  have cap: "capacity (transitionBuffer st) = c"
    using runSteps_frame [OF assms(2)] assms(3) by simp
  have ex: "exportTransitionRing st = drop (n - c) ts"
    using ringHolds_export [OF rh] cap len by simp
  have "n - c = n - min n c" by simp
  with ex c len show ?thesis by simp
qed

text \<open>Three steps on a ring of capacity 2: the ring has wrapped, the last two remain.\<close>

theorem ring_export_witness:
  "\<exists>st0 ts st. initializeAnneal demoProblem (Num 0) = Inr st0 \<and> runSteps 3 st0 = Some (ts, st)
     \<and> capacity (transitionBuffer st0) = 2 \<and> length ts = 3
     \<and> exportTransitionRing st = drop 1 ts \<and> length (exportTransitionRing st) = 2"
proof -
  from demo_init [of "Num 0"] obtain st0 where
    i: "initializeAnneal demoProblem (Num 0) = Inr st0"
    and l: "layout st0 = [5]" and c: "2 = capacity (transitionBuffer st0)" by auto
  from runSteps_small [of st0 3] l obtain ts st where r: "runSteps 3 st0 = Some (ts, st)"
    by auto
  from ring_export_last_entries [OF i r c] i r c show ?thesis by simp
qed

subsection \<open>Cooling\<close>

lemma cool_eq:
  "cool p t = jmax (case minTemperature p of None \<Rightarrow> DEFAULT_MIN_TEMPERATURE | Some m \<Rightarrow> m)
                   (jmul t (case coolingRate p of None \<Rightarrow> DEFAULT_COOLING_RATE | Some r \<Rightarrow> r))"
  by (simp add: cool_def Let_def)

lemma runAnneal_Some:
  assumes "runAnneal st budget = Some (ts, st')"
  shows "\<exists>n. budgetSteps budget = Some n \<and> runSteps n st = Some (ts, st')"
  using assms by (simp add: runAnneal_def split: option.splits)

text \<open>The temperatures along a run: each step starts where the step before it ended.\<close>

lemma runSteps_temperature:
  "runSteps n st = Some (ts, st') \<Longrightarrow>
     (\<forall>i < length ts.
        temperature (before (ts ! i))
          = (if i = 0 then temperature st else temperature (after (ts ! (i - 1)))) \<and>
        temperature (after (ts ! i)) = cool (problem st) (temperature (before (ts ! i)))) \<and>
     temperature st' = (if ts = [] then temperature st else temperature (after (last ts)))"
proof (induction n arbitrary: st ts)
  case 0
  then show ?case by simp
next
  case (Suc n)
  from runSteps_Suc_Some [OF Suc.prems] obtain t st1 ts1 where
    s: "stepAnneal st = Some (t, st1)" and r: "runSteps n st1 = Some (ts1, st')"
    and ts: "ts = t # ts1" by blast
  note f = stepAnneal_fields [OF s]
  have bt: "temperature (before t) = temperature st"
    using f(1) by (simp add: cloneSnapshot_def)
  from Suc.IH [OF r] have ih:
    "\<And>i. i < length ts1 \<Longrightarrow>
        temperature (before (ts1 ! i))
          = (if i = 0 then temperature st1 else temperature (after (ts1 ! (i - 1)))) \<and>
        temperature (after (ts1 ! i)) = cool (problem st1) (temperature (before (ts1 ! i)))"
    and fin: "temperature st'
                = (if ts1 = [] then temperature st1 else temperature (after (last ts1)))"
    by simp_all
  have "temperature (before (ts ! i))
          = (if i = 0 then temperature st else temperature (after (ts ! (i - 1)))) \<and>
        temperature (after (ts ! i)) = cool (problem st) (temperature (before (ts ! i)))"
    if "i < length ts" for i
  proof (cases i)
    case 0
    then show ?thesis using ts bt f(4) by simp
  next
    case (Suc j)
    with that ts have "j < length ts1" by simp
    from ih [OF this] show ?thesis using Suc ts f(3,4,8) by (cases j) simp_all
  qed
  moreover have "temperature st'
                   = (if ts = [] then temperature st else temperature (after (last ts)))"
    using fin ts f(3,4) by simp
  ultimately show ?case by blast
qed

lemma cool_monotone:
  assumes "(case coolingRate p of None \<Rightarrow> DEFAULT_COOLING_RATE | Some r \<Rightarrow> r) = Num r"
    and "0 \<le> r" and "r \<le> 1"
    and "(case minTemperature p of None \<Rightarrow> DEFAULT_MIN_TEMPERATURE | Some m \<Rightarrow> m) = Num m"
    and "0 \<le> a" and "m \<le> a"
  shows "\<exists>b. cool p (Num a) = Num b \<and> m \<le> b \<and> b \<le> a \<and> 0 \<le> b"
proof -
  have "a * r \<le> a" using assms(2,3,5) by (simp add: mult_left_le)
  moreover have "0 \<le> a * r" using assms(2,5) by simp
  ultimately show ?thesis using assms(1,4,6) by (simp add: cool_eq)
qed

lemma runSteps_cooling_monotone:
  assumes "(case coolingRate (problem st) of None \<Rightarrow> DEFAULT_COOLING_RATE | Some r \<Rightarrow> r) = Num r"
    and "0 \<le> r" and "r \<le> 1"
    and "(case minTemperature (problem st) of
            None \<Rightarrow> DEFAULT_MIN_TEMPERATURE | Some m \<Rightarrow> m) = Num m"
  shows "runSteps n st = Some (ts, st') \<Longrightarrow> temperature st = Num a \<Longrightarrow> 0 \<le> a \<Longrightarrow> m \<le> a \<Longrightarrow>
     (\<forall>t \<in> set ts. \<exists>x y. temperature (before t) = Num x \<and> temperature (after t) = Num y
         \<and> y \<le> x \<and> m \<le> y \<and> x \<le> a) \<and>
     (\<exists>z. temperature st' = Num z \<and> m \<le> z \<and> z \<le> a)"
  using assms
proof (induction n arbitrary: st ts a)
  case 0
  then show ?case by simp
next
  case (Suc n)
  from runSteps_Suc_Some [OF Suc.prems(1)] obtain t st1 ts1 where
    s: "stepAnneal st = Some (t, st1)" and r: "runSteps n st1 = Some (ts1, st')"
    and ts: "ts = t # ts1" by blast
  note f = stepAnneal_fields [OF s]
  have bt: "temperature (before t) = Num a"
    using f(1) Suc.prems(2) by (simp add: cloneSnapshot_def)
  from cool_monotone [OF Suc.prems(5,6,7,8) Suc.prems(3,4)]
  obtain b where b: "cool (problem st) (Num a) = Num b" "m \<le> b" "b \<le> a" "0 \<le> b" by blast
  have t1: "temperature st1 = Num b" and at: "temperature (after t) = Num b"
    using f(3,4) Suc.prems(2) b(1) by simp_all
  have p1: "problem st1 = problem st" by (rule f(8))
  from Suc.IH [OF r t1 b(4) b(2)] Suc.prems(5,6,7,8) p1
  have ih: "(\<forall>t \<in> set ts1. \<exists>x y. temperature (before t) = Num x \<and> temperature (after t) = Num y
         \<and> y \<le> x \<and> m \<le> y \<and> x \<le> b) \<and>
     (\<exists>z. temperature st' = Num z \<and> m \<le> z \<and> z \<le> b)" by simp
  show ?case using ih ts bt at b(2,3) by fastforce
qed

lemma cold_init:
  "\<exists>st0. initializeAnneal coldProblem s = Inr st0 \<and> layout st0 = [5]
      \<and> temperature st0 = Num 0 \<and> problem st0 = coldProblem"
  by (simp add: initializeAnneal_def coldProblem_def demoProblem_def Let_def)

text \<open>
  Claim C5, as stated, fails. The initial temperature is clamped at 0, not at
  \<open>minTemperature\<close>: a session configured with the initial temperature 0 and the default
  minimum \<open>1e-4\<close> starts below the minimum, and its first step raises the temperature to
  the minimum.
\<close>

theorem cooling_counterexample:
  "(case initializeAnneal coldProblem (Num 0) of
      Inl e \<Rightarrow> False
    | Inr st0 \<Rightarrow>
        jlt (temperature st0) DEFAULT_MIN_TEMPERATURE \<and>
        (case runAnneal st0 (Num 1) of
           None \<Rightarrow> False
         | Some (ts, st) \<Rightarrow> jlt (temperature st0) (temperature st)))"
proof -
  from cold_init [of "Num 0"] obtain st0 where
    i: "initializeAnneal coldProblem (Num 0) = Inr st0" and l: "layout st0 = [5]"
    and t0: "temperature st0 = Num 0" and p: "problem st0 = coldProblem" by auto
  from stepAnneal_small [of st0] l obtain t st where s: "stepAnneal st0 = Some (t, st)"
    by auto
  have "temperature st = Num (1 / 10000)"
    using stepAnneal_fields(3) [OF s] t0 p
    by (simp add: cool_eq coldProblem_def demoProblem_def DEFAULT_MIN_TEMPERATURE_def
        DEFAULT_COOLING_RATE_def)
  then show ?thesis
    using i s t0 by (simp add: runAnneal_def DEFAULT_MIN_TEMPERATURE_def)
qed

text \<open>
  Claim C5, amended. In every run of a session, each step takes the temperature \<open>T\<close> to
  \<open>max(minTemperature, T * coolingRate)\<close>, with the defaults \<open>1e-4\<close> and \<open>0.995\<close>, starting
  from the configured initial temperature clamped at 0 from below. When the cooling rate
  is a number between 0 and 1 and the initial temperature is a finite number that is at
  least the finite \<open>minTemperature\<close>, no step increases the temperature and the
  temperature never drops below \<open>minTemperature\<close>.
\<close>

theorem cooling_schedule:
  assumes "initializeAnneal p s = Inr st0" and "runAnneal st0 budget = Some (ts, st)"
  defines "rate \<equiv> (case coolingRate p of None \<Rightarrow> DEFAULT_COOLING_RATE | Some r \<Rightarrow> r)"
  defines "minT \<equiv> (case minTemperature p of None \<Rightarrow> DEFAULT_MIN_TEMPERATURE | Some m \<Rightarrow> m)"
  shows "DEFAULT_COOLING_RATE = Num (995 / 1000) \<and> DEFAULT_MIN_TEMPERATURE = Num (1 / 10000)
       \<and> temperature st0 = jmax (case initialTemperature p of
                                   None \<Rightarrow> DEFAULT_INITIAL_TEMPERATURE | Some t \<Rightarrow> t) (Num 0)
       \<and> (\<forall>i < length ts.
             temperature (before (ts ! i))
               = (if i = 0 then temperature st0 else temperature (after (ts ! (i - 1)))) \<and>
             temperature (after (ts ! i)) = jmax minT (jmul (temperature (before (ts ! i))) rate))
       \<and> temperature st = (if ts = [] then temperature st0 else temperature (after (last ts)))
       \<and> (\<forall>r m a. rate = Num r \<and> 0 \<le> r \<and> r \<le> 1 \<and> minT = Num m
                   \<and> temperature st0 = Num a \<and> m \<le> a \<longrightarrow>
             (\<forall>t \<in> set ts. \<exists>x y. temperature (before t) = Num x \<and> temperature (after t) = Num y
                 \<and> y \<le> x \<and> m \<le> y \<and> m \<le> x))"
proof -
  from runAnneal_Some [OF assms(2)] obtain n where r: "runSteps n st0 = Some (ts, st)"
    by blast
  have p: "problem st0 = p" by (rule initializeAnneal_fields(2) [OF assms(1)])
  have t0: "temperature st0 = jmax (case initialTemperature p of
              None \<Rightarrow> DEFAULT_INITIAL_TEMPERATURE | Some t \<Rightarrow> t) (Num 0)"
    by (rule initializeAnneal_fields(3) [OF assms(1)])
  have chain: "\<forall>i < length ts.
             temperature (before (ts ! i))
               = (if i = 0 then temperature st0 else temperature (after (ts ! (i - 1)))) \<and>
             temperature (after (ts ! i)) = jmax minT (jmul (temperature (before (ts ! i))) rate)"
    and fin: "temperature st
                = (if ts = [] then temperature st0 else temperature (after (last ts)))"
    using runSteps_temperature [OF r] p by (simp_all add: cool_eq rate_def minT_def)
  have mono: "\<forall>t \<in> set ts. \<exists>x y. temperature (before t) = Num x \<and> temperature (after t) = Num y
                 \<and> y \<le> x \<and> m \<le> y \<and> m \<le> x"
    if h: "rate = Num r \<and> 0 \<le> r \<and> r \<le> 1 \<and> minT = Num m \<and> temperature st0 = Num a \<and> m \<le> a"
    for r m a
  proof -
    have a0: "0 \<le> a"
    proof (cases "case initialTemperature p of
                    None \<Rightarrow> DEFAULT_INITIAL_TEMPERATURE | Some t \<Rightarrow> t")
      case (Num v)
      with t0 h show ?thesis by (simp split: if_splits)
    qed (use t0 h in simp_all)
    from h have c1: "(case coolingRate (problem st0) of
                        None \<Rightarrow> DEFAULT_COOLING_RATE | Some r \<Rightarrow> r) = Num r"
      and c2: "(case minTemperature (problem st0) of
                        None \<Rightarrow> DEFAULT_MIN_TEMPERATURE | Some m \<Rightarrow> m) = Num m"
      by (simp_all add: p rate_def minT_def)
    from h have r01: "0 \<le> r" "r \<le> 1" and ta: "temperature st0 = Num a" and ma: "m \<le> a"
      by simp_all
    from runSteps_cooling_monotone [OF c1 r01 c2 r ta a0 ma] show ?thesis by fastforce
  qed
  then have mono': "\<forall>r m a. rate = Num r \<and> 0 \<le> r \<and> r \<le> 1 \<and> minT = Num m
                   \<and> temperature st0 = Num a \<and> m \<le> a \<longrightarrow>
             (\<forall>t \<in> set ts. \<exists>x y. temperature (before t) = Num x \<and> temperature (after t) = Num y
                 \<and> y \<le> x \<and> m \<le> y \<and> m \<le> x)"
    by blast
  have d1: "DEFAULT_COOLING_RATE = Num (995 / 1000)"
    and d2: "DEFAULT_MIN_TEMPERATURE = Num (1 / 10000)"
    by (simp_all add: DEFAULT_COOLING_RATE_def DEFAULT_MIN_TEMPERATURE_def)
  show ?thesis
    using d1 d2 t0 chain fin mono' by (intro conjI) assumption+
qed

text \<open>Three steps with the defaults, from the temperature 10.\<close>

theorem cooling_schedule_witness:
  "\<exists>st0 ts st. initializeAnneal demoProblem (Num 0) = Inr st0
     \<and> runAnneal st0 (Num 3) = Some (ts, st)
     \<and> temperature st0 = Num 10
     \<and> map (\<lambda>t. temperature (before t)) ts = [Num 10, Num (199 / 20), Num (39601 / 4000)]
     \<and> map (\<lambda>t. temperature (after t)) ts
         = [Num (199 / 20), Num (39601 / 4000), Num (7880599 / 800000)]
     \<and> temperature st = Num (7880599 / 800000)"
proof -
  from demo_init [of "Num 0"] obtain st0 where
    i: "initializeAnneal demoProblem (Num 0) = Inr st0" and l: "layout st0 = [5]"
    and t0: "temperature st0 = Num 10" by auto
  from runSteps_small [of st0 3] l obtain ts st where r: "runSteps 3 st0 = Some (ts, st)"
    by auto
  then have ra: "runAnneal st0 (Num 3) = Some (ts, st)" by (simp add: runAnneal_def)
  from runSteps_length [OF r] obtain t1 t2 t3 where ts: "ts = [t1, t2, t3]"
    by (auto simp: length_Suc_conv numeral_3_eq_3)
  from cooling_schedule [OF i ra] have
    c: "\<forall>i < length ts.
             temperature (before (ts ! i))
               = (if i = 0 then temperature st0 else temperature (after (ts ! (i - 1)))) \<and>
             temperature (after (ts ! i))
               = jmax (Num (1 / 10000)) (jmul (temperature (before (ts ! i))) (Num (995 / 1000)))"
    and f: "temperature st = (if ts = [] then temperature st0 else temperature (after (last ts)))"
    by (simp_all add: demoProblem_def DEFAULT_COOLING_RATE_def DEFAULT_MIN_TEMPERATURE_def)
  from c ts t0 have b1: "temperature (before t1) = Num 10"
    and a1: "temperature (after t1) = Num (199 / 20)" by auto
  from c [rule_format, of 1] ts a1 have b2: "temperature (before t2) = Num (199 / 20)"
    and a2: "temperature (after t2) = Num (39601 / 4000)" by auto
  from c [rule_format, of 2] ts a2 have b3: "temperature (before t3) = Num (39601 / 4000)"
    and a3: "temperature (after t3) = Num (7880599 / 800000)" by auto
  from i ra t0 ts b1 a1 b2 a2 b3 a3 f show ?thesis by simp
qed

subsection \<open>The acceptance decision\<close>

text \<open>
  Claim C2. For a session state and the candidate \<open>applyMove\<close> makes of it, with
  \<open>deltaCost\<close> the candidate's total minus the current total: a negative \<open>deltaCost\<close> is
  accepted with reason \<open>improved\<close> and a zero one with reason \<open>equal\<close>, in both cases
  leaving the candidate's RNG state as it is (no draw); a positive \<open>deltaCost\<close> draws one
  value \<open>u\<close> in \<open>[0, 1)\<close> from the candidate's RNG state, is accepted exactly when
  \<open>u < exp(-deltaCost / max(temperature, 1e-12))\<close>, with reason \<open>metropolis\<close> when
  accepted and \<open>rejected\<close> otherwise, and the resulting RNG state is the state after that
  one draw either way.
\<close>

theorem acceptMove_decision:
  fixes st :: AnnealState and mv :: AnnealMove
  defines "c \<equiv> applyMove st mv"
  defines "d \<equiv> jsub (cost_total (costBreakdown c)) (cost_total (costBreakdown st))"
  defines "t \<equiv> acceptMove st c"
  defines "u \<equiv> fst (nextRng (rngState c))"
  shows "deltaCost t = d
       \<and> (jlt d (Num 0) \<longrightarrow>
            accepted t \<and> reason t = Improved \<and> rngState (after t) = rngState c)
       \<and> (d = Num 0 \<longrightarrow>
            accepted t \<and> reason t = Equal \<and> rngState (after t) = rngState c)
       \<and> (jlt (Num 0) d \<longrightarrow>
            0 \<le> u \<and> u < 1 \<and> rngState (after t) = snd (nextRng (rngState c))
            \<and> accepted t
                = jlt (Num u) (jexp (jdiv (jneg d) (jmax (temperature st) (Num (1 / 10 ^ 12)))))
            \<and> reason t = (if accepted t then Metropolis else Rejected))"
proof -
  have pos: "\<not> jlt d (Num 0) \<and> d \<noteq> Num 0" if "jlt (Num 0) d"
    using that by (cases d) simp_all
  show ?thesis
    using nextRng_range [of "rngState c"] pos
    unfolding t_def u_def
    by (auto simp: acceptMove_def Let_def d_def split: prod.splits)
qed

lemma metropolis_cutoff_example: "270369 / 4294967296 < exp (- (1 / 10) :: real)"
proof -
  have "1 + (- (1 / 10)) \<le> exp (- (1 / 10) :: real)" by (rule exp_ge_add_one_self)
  then show ?thesis by simp
qed

text \<open>
  On the layout \<open>[4, 2, 7, 1]\<close> with the sum as cost, at temperature 10: a nudge down
  improves, a swap leaves the cost equal, and a nudge up costs 1 and is decided by the
  draw \<open>270369 / 2^32\<close> from the seed 1, which is below \<open>exp(-1/10)\<close>.
\<close>

theorem acceptMove_decision_witness:
  "(let t = acceptMove sumState (applyMove sumState (Nudge 0 (- 1) \<lparr> seed = 1 \<rparr>))
    in deltaCost t = Num (- 1) \<and> jlt (deltaCost t) (Num 0) \<and> accepted t
       \<and> reason t = Improved \<and> rngState (after t) = \<lparr> seed = 1 \<rparr>)
   \<and> (let t = acceptMove sumState (applyMove sumState (Swap 0 1 \<lparr> seed = 1 \<rparr>))
    in deltaCost t = Num 0 \<and> accepted t \<and> reason t = Equal
       \<and> rngState (after t) = \<lparr> seed = 1 \<rparr>)
   \<and> (let t = acceptMove sumState (applyMove sumState (Nudge 0 1 \<lparr> seed = 1 \<rparr>))
    in deltaCost t = Num 1 \<and> jlt (Num 0) (deltaCost t)
       \<and> nextRng \<lparr> seed = 1 \<rparr> = (270369 / 4294967296, \<lparr> seed = 270369 \<rparr>)
       \<and> accepted t \<and> reason t = Metropolis \<and> rngState (after t) = \<lparr> seed = 270369 \<rparr>)"
proof -
  have n: "nextRng \<lparr> seed = 1 \<rparr> = (270369 / 4294967296, \<lparr> seed = 270369 \<rparr>)"
    by (simp add: nextRng_def Let_def sanitizeSeed_def)
  have e: "sumState = sumState" ..
  note defs = sumState_def sumProblem_def moveLayout_def jsub_def
  from acceptMove_decision [of sumState "Nudge 0 (- 1) \<lparr> seed = 1 \<rparr>"]
  have a: "let t = acceptMove sumState (applyMove sumState (Nudge 0 (- 1) \<lparr> seed = 1 \<rparr>))
    in deltaCost t = Num (- 1) \<and> jlt (deltaCost t) (Num 0) \<and> accepted t
       \<and> reason t = Improved \<and> rngState (after t) = \<lparr> seed = 1 \<rparr>"
    by (simp add: defs Let_def)
  from acceptMove_decision [of sumState "Swap 0 1 \<lparr> seed = 1 \<rparr>"]
  have b: "let t = acceptMove sumState (applyMove sumState (Swap 0 1 \<lparr> seed = 1 \<rparr>))
    in deltaCost t = Num 0 \<and> accepted t \<and> reason t = Equal
       \<and> rngState (after t) = \<lparr> seed = 1 \<rparr>"
    by (simp add: defs Let_def)
  from acceptMove_decision [of sumState "Nudge 0 1 \<lparr> seed = 1 \<rparr>"] n
    metropolis_cutoff_example
  have c: "let t = acceptMove sumState (applyMove sumState (Nudge 0 1 \<lparr> seed = 1 \<rparr>))
    in deltaCost t = Num 1 \<and> jlt (Num 0) (deltaCost t)
       \<and> nextRng \<lparr> seed = 1 \<rparr> = (270369 / 4294967296, \<lparr> seed = 270369 \<rparr>)
       \<and> accepted t \<and> reason t = Metropolis \<and> rngState (after t) = \<lparr> seed = 270369 \<rparr>"
    by (simp add: defs Let_def)
  from a b c show ?thesis by blast
qed

subsection \<open>Determinism\<close>



section \<open>Properties of the grid router\<close>

subsection \<open>Sorting by a comparator\<close>










subsection \<open>The order in which edges are routed\<close>




lemma codeUnitCompare_sep:
  "codeUnitCompare a b \<le> 0 \<Longrightarrow> codeUnitCompare b a \<le> 0 \<Longrightarrow> a = b"
  by (induction a b rule: codeUnitCompare.induct) (auto split: if_splits)











subsection \<open>Crossings\<close>

lemma countCrossings_card:
  "countCrossings ss
   = int (card {(i, j). i < j \<and> j < length ss \<and> segmentsCross (ss ! i) (ss ! j)})"
proof (induction ss)
  case Nil
  then show ?case by simp
next
  case (Cons s ss)
  let ?P = segmentsCross
  let ?B = "{(i, j). i < j \<and> j < length ss \<and> ?P (ss ! i) (ss ! j)}"
  let ?J = "{j. j < length ss \<and> ?P s (ss ! j)}"
  let ?A = "{(i, j). i < j \<and> j < length (s # ss) \<and> ?P ((s # ss) ! i) ((s # ss) ! j)}"
  have finB: "finite ?B"
    by (rule finite_subset [of _ "{..< length ss} \<times> {..< length ss}"]) auto
  have finJ: "finite ?J" by simp
  have split: "?A = (\<lambda>j. (0, Suc j)) ` ?J \<union> (\<lambda>(i, j). (Suc i, Suc j)) ` ?B"
  proof (rule set_eqI, clarify)
    fix i j
    show "((i, j) \<in> ?A)
          = ((i, j) \<in> (\<lambda>j. (0, Suc j)) ` ?J \<union> (\<lambda>(i, j). (Suc i, Suc j)) ` ?B)"
    proof (cases i)
      case 0
      then show ?thesis by (cases j) (auto simp: image_iff)
    next
      case (Suc i')
      then show ?thesis by (cases j) (auto simp: image_iff)
    qed
  qed
  have disj: "(\<lambda>j. (0, Suc j)) ` ?J \<inter> (\<lambda>(i, j). (Suc i, Suc j)) ` ?B = {}" by auto
  have c1: "card ((\<lambda>j. (0 :: nat, Suc j)) ` ?J) = card ?J"
    by (rule card_image) (simp add: inj_on_def)
  have c2: "card ((\<lambda>(i, j). (Suc i, Suc j)) ` ?B) = card ?B"
    by (rule card_image) (auto simp: inj_on_def)
  have "card ?A = card ?J + card ?B"
    unfolding split using finB finJ disj c1 c2 by (simp add: card_Un_disjoint)
  moreover have "card ?J = length (filter (?P s) ss)"
    by (simp add: length_filter_conv_card)
  ultimately show ?case using Cons.IH by simp
qed

text \<open>
  Claim C10. The crossing count of \<open>evaluateRouteCost\<close> is the number of pairs of
  segments that pass the test of \<open>segmentCrossings\<close>, and every such pair adds 20 to the
  total. For a segment with equal \<open>x\<close> at both ends (vertical) and one with different
  \<open>x\<close> (horizontal) of different edges the test is the overlap of the spans, boundaries
  included. So a vertical and a horizontal segment of two edges that only touch, in a
  T-junction or at a shared endpoint, count as one crossing and cost 20.
\<close>

theorem touching_segments_cross:
  "(\<forall>rs. route_crossings (evaluateRouteCost rs)
           = int (card {(i, j). i < j \<and> j < length (routeSegments rs)
                    \<and> segmentsCross (routeSegments rs ! i) (routeSegments rs ! j)})
         \<and> route_total (evaluateRouteCost rs)
           = route_length (evaluateRouteCost rs) + route_bends (evaluateRouteCost rs) * 5
             + route_crossings (evaluateRouteCost rs) * 20)
   \<and> (\<forall>a b c d i1 i2. i1 \<noteq> i2 \<and> fst a = fst b \<and> fst c \<noteq> fst d \<longrightarrow>
         (segmentsCross (a, b, i1) (c, d, i2) \<longleftrightarrow>
            min (fst c) (fst d) \<le> fst a \<and> fst a \<le> max (fst c) (fst d)
            \<and> min (snd a) (snd b) \<le> snd c \<and> snd c \<le> max (snd a) (snd b))
         \<and> segmentsCross (c, d, i2) (a, b, i1) = segmentsCross (a, b, i1) (c, d, i2))
   \<and> (\<forall>a b c d i1 i2. i1 \<noteq> i2 \<and> fst a = fst b \<and> fst c \<noteq> fst d
         \<and> min (fst c) (fst d) \<le> fst a \<and> fst a \<le> max (fst c) (fst d)
         \<and> min (snd a) (snd b) \<le> snd c \<and> snd c \<le> max (snd a) (snd b) \<longrightarrow>
         evaluateRouteCost [\<lparr> route_id = i1, points = [a, b] \<rparr>,
                            \<lparr> route_id = i2, points = [c, d] \<rparr>]
         = \<lparr> route_length = \<bar>snd b - snd a\<bar> + (\<bar>fst d - fst c\<bar> + \<bar>snd d - snd c\<bar>),
             route_bends = 0, route_crossings = 1,
             route_total = \<bar>snd b - snd a\<bar> + (\<bar>fst d - fst c\<bar> + \<bar>snd d - snd c\<bar>) + 20 \<rparr>)"
proof -
  have 1: "route_crossings (evaluateRouteCost rs)
           = int (card {(i, j). i < j \<and> j < length (routeSegments rs)
                    \<and> segmentsCross (routeSegments rs ! i) (routeSegments rs ! j)})
         \<and> route_total (evaluateRouteCost rs)
           = route_length (evaluateRouteCost rs) + route_bends (evaluateRouteCost rs) * 5
             + route_crossings (evaluateRouteCost rs) * 20" for rs
    by (simp add: evaluateRouteCost_def Let_def segmentCrossings_def countCrossings_card)
  have 2: "(segmentsCross (a, b, i1) (c, d, i2) \<longleftrightarrow>
            min (fst c) (fst d) \<le> fst a \<and> fst a \<le> max (fst c) (fst d)
            \<and> min (snd a) (snd b) \<le> snd c \<and> snd c \<le> max (snd a) (snd b))
         \<and> segmentsCross (c, d, i2) (a, b, i1) = segmentsCross (a, b, i1) (c, d, i2)"
    if "i1 \<noteq> i2 \<and> fst a = fst b \<and> fst c \<noteq> fst d" for a b c d :: GridPoint and i1 i2
    using that by (auto simp: segmentsCross_def Let_def)
  have 3: "evaluateRouteCost [\<lparr> route_id = i1, points = [a, b] \<rparr>,
                            \<lparr> route_id = i2, points = [c, d] \<rparr>]
         = \<lparr> route_length = \<bar>snd b - snd a\<bar> + (\<bar>fst d - fst c\<bar> + \<bar>snd d - snd c\<bar>),
             route_bends = 0, route_crossings = 1,
             route_total = \<bar>snd b - snd a\<bar> + (\<bar>fst d - fst c\<bar> + \<bar>snd d - snd c\<bar>) + 20 \<rparr>"
    if h: "i1 \<noteq> i2 \<and> fst a = fst b \<and> fst c \<noteq> fst d
         \<and> min (fst c) (fst d) \<le> fst a \<and> fst a \<le> max (fst c) (fst d)
         \<and> min (snd a) (snd b) \<le> snd c \<and> snd c \<le> max (snd a) (snd b)"
    for a b c d :: GridPoint and i1 i2
  proof -
    from h 2 [of i1 i2 a b c d] have "segmentsCross (a, b, i1) (c, d, i2)" by blast
    then show ?thesis
      using h by (simp add: evaluateRouteCost_def Let_def segmentCrossings_def
          routeSegments_def)
  qed
  from 1 2 3 show ?thesis by blast
qed

text \<open>A T-junction at \<open>(1, 0)\<close>, and two segments that share the endpoint \<open>(0, 0)\<close>.\<close>

theorem touching_segments_cross_witness:
  "evaluateRouteCost [\<lparr> route_id = ''v'', points = [(1, 0), (1, 2)] \<rparr>,
                      \<lparr> route_id = ''h'', points = [(0, 0), (2, 0)] \<rparr>]
     = \<lparr> route_length = 4, route_bends = 0, route_crossings = 1, route_total = 24 \<rparr>
   \<and> evaluateRouteCost [\<lparr> route_id = ''v'', points = [(0, 0), (0, 2)] \<rparr>,
                        \<lparr> route_id = ''h'', points = [(0, 0), (2, 0)] \<rparr>]
     = \<lparr> route_length = 4, route_bends = 0, route_crossings = 1, route_total = 24 \<rparr>"
proof -
  have ne: "''v'' \<noteq> ''h''" by simp
  from touching_segments_cross have r:
    "\<And>a b c d i1 i2. i1 \<noteq> i2 \<and> fst a = fst b \<and> fst c \<noteq> fst d
         \<and> min (fst c) (fst d) \<le> fst a \<and> fst a \<le> max (fst c) (fst d)
         \<and> min (snd a) (snd b) \<le> snd c \<and> snd c \<le> max (snd a) (snd b) \<Longrightarrow>
         evaluateRouteCost [\<lparr> route_id = i1, points = [a, b] \<rparr>,
                            \<lparr> route_id = i2, points = [c, d] \<rparr>]
         = \<lparr> route_length = \<bar>snd b - snd a\<bar> + (\<bar>fst d - fst c\<bar> + \<bar>snd d - snd c\<bar>),
             route_bends = 0, route_crossings = 1,
             route_total = \<bar>snd b - snd a\<bar> + (\<bar>fst d - fst c\<bar> + \<bar>snd d - snd c\<bar>) + 20 \<rparr>"
    by blast
  from r [of "''v''" "''h''" "(1, 0)" "(1, 2)" "(0, 0)" "(2, 0)"]
       r [of "''v''" "''h''" "(0, 0)" "(0, 2)" "(0, 0)" "(2, 0)"]
  show ?thesis by simp
qed

section \<open>Properties of the router facade\<close>

subsection \<open>The loop and its rescoring decisions\<close>

lemma hybridLoop_flags:
  "hybridLoop cmp every sc n i since sel tr ss = Some (Inr res) \<Longrightarrow>
     map (\<lambda>e. elkCost e \<noteq> None) (trace res)
       = map (\<lambda>e. elkCost e \<noteq> None) tr
         @ rescoreFlags every n i since (map (\<lambda>s. (elk s \<noteq> None, step_accepted s = Some True)) ss)
     \<and> map trace_accepted (trace res)
       = map trace_accepted tr @ map (\<lambda>s. step_accepted s = Some True) ss"
proof (induction ss arbitrary: i since sel tr)
  case Nil
  then show ?case by auto
next
  case (Cons s ss)
  let ?acc = "step_accepted s = Some True"
  let ?since1 = "if ?acc then since + 1 else since"
  let ?should = "elk s \<noteq> None \<and> (every \<le> int ?since1 \<or> int i = int n - 1)"
  from Cons.prems obtain d where d: "routeDraft cmp (draft s) = Some d"
    by (auto simp: Let_def split: option.splits)
  from Cons.prems d obtain el where
    el: "(if ?should
          then (case elk s of
                  None \<Rightarrow> Some (Inr None)
                | Some e \<Rightarrow> map_option (map_sum id Some)
                              (routeElk cmp (e \<lparr> draftInput := Some (draft s) \<rparr>)))
          else Some (Inr None)) = Some (Inr el)"
    by (auto simp: Let_def split: option.splits sum.splits)
  have inv: "(el \<noteq> None) = ?should"
    using el by (auto split: if_splits option.splits sum.splits simp: map_sum_def)
  let ?entry = "\<lparr> stepIndex = i, trace_label = label s,
                  trace_mode = ModeHybrid, trace_accepted = ?acc,
                  draftCost = toSelectedCost (cost d),
                  elkCost = map_option (\<lambda>r. toSelectedCost (cost r)) el,
                  selectedCost = toSelectedCost (case el of None \<Rightarrow> cost d | Some r \<Rightarrow> cost r),
                  selectedScore = scoreCost (case el of None \<Rightarrow> cost d | Some r \<Rightarrow> cost r) sc \<rparr>"
  from Cons.prems d el have rec:
    "hybridLoop cmp every sc n (i + 1) (if el \<noteq> None then 0 else ?since1)
       (case el of None \<Rightarrow> d | Some r \<Rightarrow> r) (tr @ [?entry]) ss = Some (Inr res)"
    by (simp add: Let_def)
  from Cons.IH [OF rec] inv show ?case by (simp add: Let_def)
qed

subsection \<open>The cadence\<close>

lemma takeWhile_length_le: "length (takeWhile P xs) \<le> length xs"
  by (induction xs) simp_all

lemma rescoreFlags_length [simp]: "length (rescoreFlags every n i since xs) = length xs"
  by (induction xs arbitrary: i since) (auto simp: Let_def)

lemma rescoreFlags_char:
  assumes "length pf = i" and "length pa = i"
    and "since = length (filter id (drop (i - length (takeWhile Not (rev pf))) pa))"
  shows "\<forall>j. i \<le> j \<and> j < i + length xs \<longrightarrow>
           ((pf @ rescoreFlags every n i since xs) ! j \<longleftrightarrow>
              fst (xs ! (j - i)) \<and>
              (every \<le> int (acceptedSinceRescore (pf @ rescoreFlags every n i since xs)
                                (pa @ map snd xs) j)
               \<or> int j = int n - 1))"
  using assms
proof (induction xs arbitrary: i since pf pa)
  case Nil
  then show ?case by auto
next
  case (Cons x xs)
  obtain e a where x: "x = (e, a)" by (cases x)
  let ?k = "length (takeWhile Not (rev pf))"
  let ?since1 = "if a then since + 1 else since"
  let ?inv = "e \<and> (every \<le> int ?since1 \<or> int i = int n - 1)"
  let ?since2 = "if ?inv then 0 else ?since1"
  let ?F = "pf @ rescoreFlags every n i since (x # xs)"
  let ?A = "pa @ map snd (x # xs)"
  have kle: "?k \<le> i" using takeWhile_length_le [of Not "rev pf"] Cons.prems(1) by simp
  have F: "?F = (pf @ [?inv]) @ rescoreFlags every n (Suc i) ?since2 xs"
    by (simp add: x Let_def)
  have A: "?A = (pa @ [a]) @ map snd xs" by (simp add: x)
  have cnt: "length (filter id (drop (i - ?k) (pa @ [a]))) = ?since1"
    using Cons.prems(2,3) by (auto simp: id_def)
  have at_i: "acceptedSinceRescore ?F ?A i = ?since1"
  proof -
    have "take i ?F = pf" using Cons.prems(1) by simp
    moreover have "take (i + 1) ?A = pa @ [a]" using Cons.prems(2) by (simp add: x)
    ultimately show ?thesis using cnt by (simp add: acceptedSinceRescore_def Let_def)
  qed
  have s2: "?since2 = length (filter id (drop (Suc i - length (takeWhile Not (rev (pf @ [?inv]))))
                                   (pa @ [a])))"
  proof (cases ?inv)
    case True
    then show ?thesis using Cons.prems(2) by simp
  next
    case False
    have a1: "?since2 = ?since1" by (rule if_not_P [OF False])
    have iF: "?inv = False" by (rule iffD2 [OF eq_False False])
    have a2: "length (takeWhile Not (rev (pf @ [?inv]))) = Suc ?k" unfolding iF by simp
    show ?thesis unfolding a1 a2 by (simp only: diff_Suc_Suc cnt)
  qed
  have ih: "\<forall>j. Suc i \<le> j \<and> j < Suc i + length xs \<longrightarrow>
           (?F ! j \<longleftrightarrow>
              fst (xs ! (j - Suc i)) \<and>
              (every \<le> int (acceptedSinceRescore ?F ?A j) \<or> int j = int n - 1))"
    unfolding F A
  proof (rule Cons.IH)
    show "length (pf @ [?inv]) = Suc i" using Cons.prems(1) by simp
    show "length (pa @ [a]) = Suc i" using Cons.prems(2) by simp
    show "?since2 = length (filter id (drop (Suc i - length (takeWhile Not (rev (pf @ [?inv]))))
                                   (pa @ [a])))" by (rule s2)
  qed
  show ?case
  proof (intro allI impI)
    fix j assume j: "i \<le> j \<and> j < i + length (x # xs)"
    show "?F ! j \<longleftrightarrow>
              fst ((x # xs) ! (j - i)) \<and>
              (every \<le> int (acceptedSinceRescore ?F ?A j) \<or> int j = int n - 1)"
    proof (cases "j = i")
      case True
      have "?F ! i = ?inv" using Cons.prems(1) by (simp add: x Let_def nth_append)
      with True at_i show ?thesis by (simp add: x)
    next
      case False
      with j have j': "Suc i \<le> j \<and> j < Suc i + length xs" by simp
      then have "(x # xs) ! (j - i) = xs ! (j - Suc i)"
        by (metis Suc_diff_Suc Suc_le_lessD nth_Cons_Suc)
      with ih j' show ?thesis by simp
    qed
  qed
qed

lemma rescoreFlags_quiet:
  assumes "int since + int (length (filter snd xs)) < every" and "i + length xs < n"
  shows "rescoreFlags every n i since (xs @ ys)
         = replicate (length xs) False
           @ rescoreFlags every n (i + length xs) (since + length (filter snd xs)) ys"
  using assms
proof (induction xs arbitrary: i since)
  case Nil
  then show ?case by simp
next
  case (Cons x xs)
  obtain e a where x: "x = (e, a)" by (cases x)
  let ?since1 = "if a then since + 1 else since"
  have lt: "int ?since1 < every" using Cons.prems(1) by (simp add: x split: if_splits)
  have nf: "int i \<noteq> int n - 1" using Cons.prems(2) by simp
  have ih: "rescoreFlags every n (Suc i) ?since1 (xs @ ys)
         = replicate (length xs) False
           @ rescoreFlags every n (Suc i + length xs) (?since1 + length (filter snd xs)) ys"
    by (rule Cons.IH) (use Cons.prems in \<open>simp_all add: x split: if_splits\<close>)
  show ?case
  proof (cases a)
    case True
    with lt have "\<not> every \<le> 1 + int since" by simp
    with ih True nf show ?thesis by (simp add: x Let_def)
  next
    case False
    with lt have "\<not> every \<le> int since" by simp
    with ih False nf show ?thesis by (simp add: x Let_def)
  qed
qed

lemma rescoreFlags_last:
  "fst x \<Longrightarrow> Suc i = n \<Longrightarrow> rescoreFlags every n i since [x] = [True]"
  by (cases x) (simp add: Let_def)

lemma rescoreFlags_scenario:
  assumes len: "length xs = n" and att: "\<forall>x \<in> set xs. fst x"
    and k: "k < n" and ak: "snd (xs ! k)"
    and bef: "int (length (filter snd (take k xs))) + 1 = every"
    and aft: "filter snd (drop (Suc k) xs) = []"
  shows "rescoreFlags every n 0 0 xs
         = replicate k False @ [True]
           @ (if Suc k = n then [] else replicate (n - k - 2) False @ [True])"
proof -
  let ?c = "length (filter snd (take k xs))"
  let ?rest = "drop (Suc k) xs"
  obtain e a where xk: "xs ! k = (e, a)" by (cases "xs ! k")
  from k len att have "fst (xs ! k)" by simp
  with xk ak have e: "e" and a: "a" by simp_all
  have split: "xs = take k xs @ (e, a) # ?rest"
    using k len xk by (metis id_take_nth_drop)
  have "rescoreFlags every n 0 0 (take k xs @ (e, a) # ?rest)
        = replicate (length (take k xs)) False
          @ rescoreFlags every n (0 + length (take k xs)) (0 + ?c) ((e, a) # ?rest)"
    by (rule rescoreFlags_quiet) (use bef k len in simp_all)
  then have 1: "rescoreFlags every n 0 0 xs
        = replicate k False @ rescoreFlags every n k ?c ((e, a) # ?rest)"
    using split k len by (simp add: min_def)
  have le: "every \<le> int (?c + 1)" using bef by simp
  have 2: "rescoreFlags every n k ?c ((e, a) # ?rest)
           = True # rescoreFlags every n (Suc k) 0 ?rest"
    using e a le by (simp add: Let_def)
  have 3: "rescoreFlags every n (Suc k) 0 ?rest
           = (if Suc k = n then [] else replicate (n - k - 2) False @ [True])"
  proof (cases "Suc k = n")
    case True
    with len show ?thesis by simp
  next
    case False
    with k len have ne: "?rest \<noteq> []" by simp
    let ?b = "butlast ?rest"
    have r: "?rest = ?b @ [last ?rest]" by (rule append_butlast_last_id [OF ne, symmetric])
    have fb: "filter snd ?b = []"
    proof -
      have "filter snd ?rest = filter snd ?b @ filter snd [last ?rest]"
        by (subst r) (simp only: filter_append)
      with aft show ?thesis by simp
    qed
    have lb: "length ?b = n - k - 2" using len by simp
    have "last ?rest \<in> set xs" using ne by (metis in_set_dropD last_in_set)
    with att have fl: "fst (last ?rest)" by simp
    have "rescoreFlags every n (Suc k) 0 (?b @ [last ?rest])
          = replicate (length ?b) False
            @ rescoreFlags every n (Suc k + length ?b) (0 + length (filter snd ?b)) [last ?rest]"
      by (rule rescoreFlags_quiet) (use fb bef lb False k in simp_all)
    moreover have "Suc (Suc k + length ?b) = n" using lb False k by simp
    from rescoreFlags_last [OF fl this]
    have "rescoreFlags every n (Suc k + length ?b) (0 + length (filter snd ?b)) [last ?rest]
          = [True]" .
    ultimately have "rescoreFlags every n (Suc k) 0 (?b @ [last ?rest])
          = replicate (n - k - 2) False @ [True]" using lb by simp
    with r False show ?thesis by simp
  qed
  from 1 2 3 show ?thesis by simp
qed

lemma scenario_nth:
  assumes "k < n" and "i < n"
  shows "(replicate k False @ [True]
           @ (if Suc k = n then [] else replicate (n - k - 2) False @ [True])) ! i
         \<longleftrightarrow> i = k \<or> Suc i = n"
proof (cases "Suc k = n")
  case True
  with assms show ?thesis by (auto simp: nth_append)
next
  case False
  with assms show ?thesis by (auto simp: nth_append nth_Cons split: nat.splits)
qed

lemma scenario_count:
  "length (filter id (replicate k False @ [True]
           @ (if Suc k = n then [] else replicate (n - k - 2) False @ [True])))
   = (if Suc k = n then 1 else 2)"
  by simp

lemma runHybrid_flags:
  assumes "runHybrid cmp input = Some (Inr res)"
  shows "map (\<lambda>e. elkCost e \<noteq> None) (trace res)
         = rescoreFlags (max 1 (case hybridRescoreEveryAccepted input of None \<Rightarrow> 10 | Some e \<Rightarrow> e))
             (length (case stepsForHybrid input of None \<Rightarrow> [facade_step input] | Some ss \<Rightarrow> ss))
             0 0
             (map (\<lambda>s. (elk s \<noteq> None, step_accepted s = Some True))
                (case stepsForHybrid input of None \<Rightarrow> [facade_step input] | Some ss \<Rightarrow> ss))
       \<and> map trace_accepted (trace res)
         = map (\<lambda>s. step_accepted s = Some True)
             (case stepsForHybrid input of None \<Rightarrow> [facade_step input] | Some ss \<Rightarrow> ss)"
proof -
  let ?steps = "case stepsForHybrid input of None \<Rightarrow> [facade_step input] | Some ss \<Rightarrow> ss"
  let ?every = "max 1 (case hybridRescoreEveryAccepted input of None \<Rightarrow> 10 | Some e \<Rightarrow> e)"
  have "\<exists>sel0. hybridLoop cmp ?every (score input) (length ?steps) 0 0 sel0 [] ?steps
                 = Some (Inr res)"
  proof (cases ?steps)
    case Nil
    with assms show ?thesis by (simp add: runHybrid_def)
  next
    case (Cons s0 ss)
    show ?thesis
    proof (cases "routeDraft cmp (draft s0)")
      case None
      with assms Cons show ?thesis by (simp add: runHybrid_def del: hybridLoop.simps)
    next
      case (Some sel0)
      with assms Cons have
        "hybridLoop cmp ?every (score input) (length ?steps) 0 0 sel0 [] ?steps = Some (Inr res)"
        by (simp add: runHybrid_def del: hybridLoop.simps)
      then show ?thesis ..
    qed
  qed
  then obtain sel0 where
    "hybridLoop cmp ?every (score input) (length ?steps) 0 0 sel0 [] ?steps = Some (Inr res)" ..
  from hybridLoop_flags [OF this] show ?thesis by simp
qed

lemma count_accepted: "length (filter id (map snd ys)) = length (filter snd ys)"
  by (induction ys) auto

lemma scenario_flags:
  assumes len: "length xs = n" and att: "\<forall>x \<in> set xs. fst x"
    and k: "k < n" and ak: "map snd xs ! k"
    and bef: "int (length (filter id (take k (map snd xs)))) + 1 = every"
    and tot: "int (length (filter id (map snd xs))) = every"
  shows "rescoreFlags every n 0 0 xs
         = replicate k False @ [True]
           @ (if Suc k = n then [] else replicate (n - k - 2) False @ [True])"
proof (rule rescoreFlags_scenario [OF len att k])
  from ak k len show a: "snd (xs ! k)" by simp
  have "take k (map snd xs) = map snd (take k xs)" by (simp add: take_map)
  with bef show b: "int (length (filter snd (take k xs))) + 1 = every"
    by (simp only: count_accepted)
  have "xs = take k xs @ xs ! k # drop (Suc k) xs"
    using k len by (metis id_take_nth_drop)
  then have "filter snd xs
             = filter snd (take k xs) @ filter snd [xs ! k] @ filter snd (drop (Suc k) xs)"
    by (metis append_Cons append_Nil filter_append)
  then have "length (filter snd xs)
             = length (filter snd (take k xs)) + 1 + length (filter snd (drop (Suc k) xs))"
    using a by simp
  moreover from tot have "int (length (filter snd xs)) = every" by (simp only: count_accepted)
  ultimately have "length (filter snd (drop (Suc k) xs)) = 0" using b by linarith
  then show "filter snd (drop (Suc k) xs) = []" by simp
qed

text \<open>
  Claim C9, as amended. A hybrid run that returns has one trace entry per step, and the
  precise router is invoked on a step exactly when one is attached to the step and
  either the count of accepted steps since the last precise invocation (that step left
  out, this one counted) has reached the cadence, which is \<open>hybridRescoreEveryAccepted\<close>
  (10 by default) and at least 1, or the step is the last one; the count starts again
  from 0 after each invocation. For twelve steps with a precise router attached to each,
  ten of them accepted, at cadence 10: the step \<open>k\<close> of the tenth acceptance and the last
  step are rescored and no other, which makes two rescorings when the tenth acceptance
  comes before the last step and one when it is the last step.
\<close>

theorem hybrid_rescoring:
  fixes localeCompare input res steps every invoked accs
  defines "steps \<equiv> (case stepsForHybrid input of None \<Rightarrow> [facade_step input] | Some ss \<Rightarrow> ss)"
    and "every \<equiv> max 1 (case hybridRescoreEveryAccepted input of None \<Rightarrow> 10 | Some e \<Rightarrow> e)"
    and "invoked \<equiv> map (\<lambda>entry. elkCost entry \<noteq> None) (trace res)"
    and "accs \<equiv> map (\<lambda>s. step_accepted s = Some True) steps"
  assumes run: "runHybrid localeCompare input = Some (Inr res)"
  shows "length (trace res) = length steps
       \<and> map trace_accepted (trace res) = accs
       \<and> (\<forall>i < length steps.
             invoked ! i \<longleftrightarrow>
               elk (steps ! i) \<noteq> None
               \<and> (every \<le> int (acceptedSinceRescore invoked accs i) \<or> Suc i = length steps))
       \<and> (length steps = 12 \<and> every = 10 \<and> (\<forall>s \<in> set steps. elk s \<noteq> None)
            \<and> length (filter id accs) = 10 \<longrightarrow>
            (\<forall>k < 12. accs ! k \<and> length (filter id (take k accs)) = 9 \<longrightarrow>
               (\<forall>i < 12. invoked ! i \<longleftrightarrow> i = k \<or> i = 11)
               \<and> length (filter id invoked) = (if k = 11 then 1 else 2)))"
proof -
  let ?xs = "map (\<lambda>s. (elk s \<noteq> None, step_accepted s = Some True)) steps"
  let ?n = "length steps"
  from runHybrid_flags [OF run]
  have inv: "invoked = rescoreFlags every ?n 0 0 ?xs"
    and acc: "map trace_accepted (trace res) = accs"
    unfolding steps_def every_def invoked_def accs_def by simp_all
  have sx: "map snd ?xs = accs" unfolding accs_def by (simp add: comp_def)
  have c1: "length (trace res) = ?n"
  proof -
    have "length invoked = ?n" unfolding inv by simp
    then show ?thesis unfolding invoked_def by simp
  qed
  have c3: "invoked ! i \<longleftrightarrow>
               elk (steps ! i) \<noteq> None
               \<and> (every \<le> int (acceptedSinceRescore invoked accs i) \<or> Suc i = ?n)"
    if i: "i < ?n" for i
  proof -
    have "\<forall>j. 0 \<le> j \<and> j < 0 + length ?xs \<longrightarrow>
           (([] @ rescoreFlags every ?n 0 0 ?xs) ! j \<longleftrightarrow>
              fst (?xs ! (j - 0)) \<and>
              (every \<le> int (acceptedSinceRescore ([] @ rescoreFlags every ?n 0 0 ?xs)
                                ([] @ map snd ?xs) j)
               \<or> int j = int ?n - 1))"
      by (rule rescoreFlags_char) simp_all
    then have "(([] @ rescoreFlags every ?n 0 0 ?xs) ! i \<longleftrightarrow>
              fst (?xs ! (i - 0)) \<and>
              (every \<le> int (acceptedSinceRescore ([] @ rescoreFlags every ?n 0 0 ?xs)
                                ([] @ map snd ?xs) i)
               \<or> int i = int ?n - 1))"
      using i by simp
    moreover have "fst (?xs ! (i - 0)) \<longleftrightarrow> elk (steps ! i) \<noteq> None" using i by simp
    moreover have "int i = int ?n - 1 \<longleftrightarrow> Suc i = ?n" by auto
    ultimately show ?thesis unfolding append_Nil sx inv [symmetric] by simp
  qed
  have c4: "(\<forall>i < 12. invoked ! i \<longleftrightarrow> i = k \<or> i = 11)
            \<and> length (filter id invoked) = (if k = 11 then 1 else 2)"
    if h: "?n = 12" "every = 10" "\<forall>s \<in> set steps. elk s \<noteq> None" "length (filter id accs) = 10"
      and k: "k < 12" "accs ! k" "length (filter id (take k accs)) = 9" for k
  proof -
    have fl: "rescoreFlags every 12 0 0 ?xs
         = replicate k False @ [True]
           @ (if Suc k = 12 then [] else replicate (12 - k - 2) False @ [True])"
    proof (rule scenario_flags)
      show "length ?xs = 12" using h(1) by simp
      show "\<forall>x \<in> set ?xs. fst x" using h(3) by simp
      show "k < 12" by (rule k(1))
      show "map snd ?xs ! k" unfolding sx by (rule k(2))
      show "int (length (filter id (take k (map snd ?xs)))) + 1 = every"
        unfolding sx using k(3) h(2) by simp
      show "int (length (filter id (map snd ?xs))) = every"
        unfolding sx using h(4) h(2) by simp
    qed
    have iv: "invoked = replicate k False @ [True]
           @ (if Suc k = 12 then [] else replicate (12 - k - 2) False @ [True])"
      using inv fl h(1) by simp
    have "invoked ! i \<longleftrightarrow> i = k \<or> i = 11" if "i < 12" for i
    proof -
      from scenario_nth [OF k(1) that]
      have "invoked ! i \<longleftrightarrow> i = k \<or> Suc i = 12" unfolding iv .
      then show ?thesis by auto
    qed
    moreover have "length (filter id invoked) = (if k = 11 then 1 else 2)"
      unfolding iv scenario_count by auto
    ultimately show ?thesis by blast
  qed
  from c1 acc c3 c4 show ?thesis by blast
qed

lemma lateRun:
  "rescoredAt (runHybrid codeUnitCompare (hybridInput (replicate 10 True @ [False, False])))
   = Some [False, False, False, False, False, False, False, False, False, True, False, True]"
  by code_simp

text \<open>
  Ten accepted steps and then two rejected ones: the tenth step and the twelfth are
  rescored.
\<close>

theorem hybrid_rescoring_witness:
  "\<exists>res. runHybrid codeUnitCompare (hybridInput (replicate 10 True @ [False, False]))
            = Some (Inr res)
     \<and> length (trace res) = 12
     \<and> map trace_accepted (trace res) = replicate 10 True @ [False, False]
     \<and> map (\<lambda>entry. elkCost entry \<noteq> None) (trace res) ! 9
     \<and> \<not> map (\<lambda>entry. elkCost entry \<noteq> None) (trace res) ! 10
     \<and> map (\<lambda>entry. elkCost entry \<noteq> None) (trace res) ! 11
     \<and> length (filter id (map (\<lambda>entry. elkCost entry \<noteq> None) (trace res))) = 2"
proof -
  let ?accs = "replicate 10 True @ [False, False]"
  let ?input = "hybridInput ?accs"
  from lateRun obtain res where run: "runHybrid codeUnitCompare ?input = Some (Inr res)"
    by (auto simp: rescoredAt_def split: option.splits sum.splits)
  let ?invoked = "map (\<lambda>entry. elkCost entry \<noteq> None) (trace res)"
  have st: "(case stepsForHybrid ?input of None \<Rightarrow> [facade_step ?input] | Some ss \<Rightarrow> ss)
            = map lateStep ?accs"
    by (simp add: hybridInput_def)
  have ev: "max 1 (case hybridRescoreEveryAccepted ?input of None \<Rightarrow> 10 | Some e \<Rightarrow> e) = 10"
    by (simp add: hybridInput_def)
  have ac: "map (\<lambda>s. step_accepted s = Some True) (map lateStep ?accs) = ?accs"
    by (simp add: lateStep_def)
  note cadence = hybrid_rescoring [OF run, unfolded st ev ac]
  from cadence have len: "length (trace res) = 12" by simp
  from cadence have acc: "map trace_accepted (trace res) = ?accs" by simp
  from cadence have sc: "length (map lateStep ?accs) = 12 \<and> (10::int) = 10
      \<and> (\<forall>s \<in> set (map lateStep ?accs). elk s \<noteq> None)
      \<and> length (filter id ?accs) = 10 \<longrightarrow>
      (\<forall>k < 12. ?accs ! k \<and> length (filter id (take k ?accs)) = 9 \<longrightarrow>
         (\<forall>i < 12. ?invoked ! i \<longleftrightarrow> i = k \<or> i = 11)
         \<and> length (filter id ?invoked) = (if k = 11 then 1 else 2))"
    by (elim conjE)
  have hyp: "length (map lateStep ?accs) = 12 \<and> (10::int) = 10
      \<and> (\<forall>s \<in> set (map lateStep ?accs). elk s \<noteq> None)
      \<and> length (filter id ?accs) = 10"
    by (simp add: lateStep_def)
  from sc hyp have "\<forall>k < 12. ?accs ! k \<and> length (filter id (take k ?accs)) = 9 \<longrightarrow>
         (\<forall>i < 12. ?invoked ! i \<longleftrightarrow> i = k \<or> i = 11)
         \<and> length (filter id ?invoked) = (if k = 11 then 1 else 2)"
    by (rule mp)
  then have "(9::nat) < 12 \<longrightarrow>
         (?accs ! 9 \<and> length (filter id (take 9 ?accs)) = 9 \<longrightarrow>
         (\<forall>i < 12. ?invoked ! i \<longleftrightarrow> i = 9 \<or> i = 11)
         \<and> length (filter id ?invoked) = (if (9::nat) = 11 then 1 else 2))"
    by (rule spec)
  moreover have "(9::nat) < 12" by simp
  ultimately have "?accs ! 9 \<and> length (filter id (take 9 ?accs)) = 9 \<longrightarrow>
         (\<forall>i < 12. ?invoked ! i \<longleftrightarrow> i = 9 \<or> i = 11)
         \<and> length (filter id ?invoked) = (if (9::nat) = 11 then 1 else 2)"
    by (rule mp)
  moreover have "?accs ! 9 \<and> length (filter id (take 9 ?accs)) = 9" by (simp add: nth_append)
  ultimately have k9: "(\<forall>i < 12. ?invoked ! i \<longleftrightarrow> i = 9 \<or> i = 11)
         \<and> length (filter id ?invoked) = (if (9::nat) = 11 then 1 else 2)"
    by (rule mp)
  from k9 have all: "\<forall>i < 12. ?invoked ! i \<longleftrightarrow> i = 9 \<or> i = 11" by (rule conjunct1)
  from k9 have cnt: "length (filter id ?invoked) = 2" by simp
  from all have "?invoked ! 9" "\<not> ?invoked ! 10" "?invoked ! 11" by simp_all
  with cnt have "?invoked ! 9" "\<not> ?invoked ! 10" "?invoked ! 11" "length (filter id ?invoked) = 2"
    by simp_all
  with run len acc show ?thesis by blast
qed

text \<open>
  Claim C9 as it is stated fails. Two rejected steps and then ten accepted ones are
  twelve steps of which ten are accepted; the tenth acceptance is reached at the last
  step, and the run has one precise rescoring, not one at the tenth acceptance and one
  more at the final step.
\<close>

theorem hybrid_rescoring_counterexample:
  "length ([False, False] @ replicate 10 True) = 12
   \<and> length (filter id ([False, False] @ replicate 10 True)) = 10
   \<and> rescoredAt (runHybrid codeUnitCompare (hybridInput ([False, False] @ replicate 10 True)))
     = Some [False, False, False, False, False, False, False, False, False, False, False, True]"
proof -
  have "rescoredAt (runHybrid codeUnitCompare (hybridInput ([False, False] @ replicate 10 True)))
     = Some [False, False, False, False, False, False, False, False, False, False, False, True]"
    by code_simp
  then show ?thesis by simp
qed

end
